theory Spec2Isabelle
  imports Main
begin

section \<open>Data model of \<^verbatim>\<open>src/services/db.ts\<close>\<close>

text \<open>
  The service stores two kinds of records in the IndexedDB database \<^verbatim>\<open>ImageGalleryDB\<close>:
  image groups and images. Both interfaces have a field \<^verbatim>\<open>id\<close>, \<^verbatim>\<open>name\<close> and
  \<^verbatim>\<open>createdAt\<close>; the record fields carry the prefix \<open>g_\<close> (interface \<^verbatim>\<open>ImageGroup\<close>)
  or \<open>i_\<close> (interface \<^verbatim>\<open>StoredImage\<close>) to keep them apart (and away from the HOL
  constant \<open>id\<close>). Identifiers are the integer keys of the stores, timestamps are the
  strings \<^verbatim>\<open>new Date().toISOString()\<close> returns, a blob is opaque data with its
  content type.
\<close>

type_synonym timestamp = string

datatype Blob = Blob (bytes: "nat list") (mimeType: string)

record ImageGroup =
  g_id :: int
  g_name :: string
  g_createdAt :: timestamp
  g_updatedAt :: timestamp

record StoredImage =
  i_id :: int
  i_groupId :: int
  i_name :: string
  i_blob :: Blob
  i_createdAt :: timestamp

text \<open>
  Every failure of the service is a JavaScript \<^verbatim>\<open>Error\<close> whose message is one of
  fourteen templates; one constructor stands for each template, with the text (or the id)
  the template is filled with.
\<close>

datatype error =
    DatabaseFailedToOpen string   \<comment> \<open>\<^verbatim>\<open>Database failed to open: ...\<close>\<close>
  | FailedToCreateGroup string    \<comment> \<open>\<^verbatim>\<open>Failed to create group: ...\<close>\<close>
  | FailedToGetGroups string      \<comment> \<open>\<^verbatim>\<open>Failed to get groups: ...\<close>\<close>
  | FailedToGetGroup string       \<comment> \<open>\<^verbatim>\<open>Failed to get group: ...\<close>\<close>
  | GroupNotFound int             \<comment> \<open>\<^verbatim>\<open>Group with ID ... not found\<close>\<close>
  | FailedToRenameGroup string    \<comment> \<open>\<^verbatim>\<open>Failed to rename group: ...\<close>\<close>
  | FailedToDeleteGroup string    \<comment> \<open>\<^verbatim>\<open>Failed to delete group: ...\<close>\<close>
  | FailedToAddImage string       \<comment> \<open>\<^verbatim>\<open>Failed to add image: ...\<close>\<close>
  | FailedToGetImages string      \<comment> \<open>\<^verbatim>\<open>Failed to get images: ...\<close>\<close>
  | FailedToGetImage string       \<comment> \<open>\<^verbatim>\<open>Failed to get image: ...\<close>\<close>
  | ImageNotFound int             \<comment> \<open>\<^verbatim>\<open>Image with ID ... not found\<close>\<close>
  | FailedToRenameImage string    \<comment> \<open>\<^verbatim>\<open>Failed to rename image: ...\<close>\<close>
  | FailedToDeleteImage string    \<comment> \<open>\<^verbatim>\<open>Failed to delete image: ...\<close>\<close>
  | FailedToDeleteImages string   \<comment> \<open>\<^verbatim>\<open>Failed to delete images: ...\<close>\<close>

section \<open>The storage engine\<close>

text \<open>
  IndexedDB itself is the browser's, not the repository's. Its part in the operations is
  modelled as follows.

  \<^item> An object store with key path \<^verbatim>\<open>id\<close> and a key generator is the list of its
    records in ascending key order, together with the current number of the generator.
  \<^item> Every request the service places is answered by the engine with success or with an
    error event. The answers are an input: the list \<open>outcomes\<close> holds the answers to the
    requests still to come, in the order the requests are placed (\<^verbatim>\<open>indexedDB.open\<close>
    included); past the end of the list every request succeeds.
  \<^item> No handler of the service calls \<^verbatim>\<open>preventDefault\<close>, so a request that fails aborts
    its transaction: the store is left as it was when the transaction began. A
    transaction whose requests all succeeded commits.
  \<^item> The clock is an input as well: the \<open>n\<close>-th evaluation of
    \<^verbatim>\<open>new Date().toISOString()\<close> returns \<open>clock n\<close>.
  \<^item> Operations run one after the other; the engine serialises their transactions.
\<close>

datatype outcome = Success | Failure "string option"
  \<comment> \<open>the argument is \<^verbatim>\<open>request.error?.message\<close>\<close>

datatype txmode = ReadOnly | ReadWrite

record transaction =
  tx_connection :: nat
  tx_stores :: "string list"
  tx_mode :: txmode

record world =
  groups :: "ImageGroup list"
  groupsKeyGen :: int
  images :: "StoredImage list"
  imagesKeyGen :: int
  connections :: nat
  transactions :: "transaction list"
  outcomes :: "outcome list"
  clock :: "nat \<Rightarrow> timestamp"
  clockReads :: nat
  abortMessage :: "string option"

text \<open>
  \<open>connections\<close> counts the connections \<^verbatim>\<open>indexedDB.open\<close> has handed out; the handle
  of a connection is its number. \<open>transactions\<close> logs every call of
  \<^verbatim>\<open>db.transaction\<close> with the handle it was called on. \<open>abortMessage\<close> is the message
  of the \<^verbatim>\<open>AbortError\<close> the engine delivers to the pending requests of a transaction
  that aborts.
\<close>

definition errMessage :: "string option \<Rightarrow> string" where
  \<comment> \<open>\<^verbatim>\<open>error?.message || 'Unknown error'\<close>: the empty string is falsy too\<close>
  "errMessage m = (case m of None \<Rightarrow> ''Unknown error''
                   | Some s \<Rightarrow> if s = [] then ''Unknown error'' else s)"

definition nextOutcome :: "world \<Rightarrow> outcome \<times> world" where
  "nextOutcome w = (case outcomes w of [] \<Rightarrow> (Success, w)
                    | oc # rest \<Rightarrow> (oc, w\<lparr>outcomes := rest\<rparr>))"

definition headOutcome :: "outcome list \<Rightarrow> outcome" where
  \<comment> \<open>the answer the next request will get\<close>
  "headOutcome ocs = (case ocs of [] \<Rightarrow> Success | oc # _ \<Rightarrow> oc)"

definition now :: "world \<Rightarrow> timestamp \<times> world" where
  \<comment> \<open>\<^verbatim>\<open>new Date().toISOString()\<close>\<close>
  "now w = (clock w (clockReads w), w\<lparr>clockReads := Suc (clockReads w)\<rparr>)"

definition beginTransaction :: "nat \<Rightarrow> string list \<Rightarrow> txmode \<Rightarrow> world \<Rightarrow> world" where
  \<comment> \<open>\<^verbatim>\<open>db.transaction(stores, mode)\<close>\<close>
  "beginTransaction db stores m w =
     w\<lparr>transactions := transactions w @ [\<lparr>tx_connection = db, tx_stores = stores, tx_mode = m\<rparr>]\<rparr>"

definition store_get :: "('v \<Rightarrow> int) \<Rightarrow> int \<Rightarrow> 'v list \<Rightarrow> 'v option" where
  \<comment> \<open>\<^verbatim>\<open>store.get(key)\<close>: the record, or \<^verbatim>\<open>undefined\<close>\<close>
  "store_get key k rs = find (\<lambda>r. key r = k) rs"

definition store_delete :: "('v \<Rightarrow> int) \<Rightarrow> int \<Rightarrow> 'v list \<Rightarrow> 'v list" where
  \<comment> \<open>\<^verbatim>\<open>store.delete(key)\<close>: nothing happens when no record has the key\<close>
  "store_delete key k rs = filter (\<lambda>r. key r \<noteq> k) rs"

definition store_put :: "('v \<Rightarrow> int) \<Rightarrow> 'v \<Rightarrow> 'v list \<Rightarrow> 'v list" where
  \<comment> \<open>\<^verbatim>\<open>store.put(value)\<close>: replaces the record with the value's key, or inserts\<close>
  "store_put key v rs =
     (if key v \<in> set (map key rs) then map (\<lambda>r. if key r = key v then v else r) rs
      else insort_key key v rs)"

definition index_getAll :: "int \<Rightarrow> StoredImage list \<Rightarrow> StoredImage list" where
  \<comment> \<open>\<^verbatim>\<open>index.getAll(groupId)\<close> on the index \<^verbatim>\<open>groupId\<close> of the images\<close>
  "index_getAll groupId rs = filter (\<lambda>r. i_groupId r = groupId) rs"

definition cursor_next :: "int \<Rightarrow> int option \<Rightarrow> StoredImage list \<Rightarrow> StoredImage option" where
  \<comment> \<open>the record a cursor on the index \<^verbatim>\<open>groupId\<close>, opened on one group, stands on
      next: the first of the group past the primary key of its position\<close>
  "cursor_next groupId pos rs =
     find (\<lambda>r. i_groupId r = groupId \<and> (case pos of None \<Rightarrow> True | Some p \<Rightarrow> p < i_id r)) rs"

definition wf_store :: "('v \<Rightarrow> int) \<Rightarrow> 'v list \<Rightarrow> int \<Rightarrow> bool" where
  \<comment> \<open>the records are in strictly ascending key order, below the generator's number\<close>
  "wf_store key rs gen \<longleftrightarrow> sorted_wrt (<) (map key rs) \<and> list_all (\<lambda>r. key r < gen) rs"

definition wf_world :: "world \<Rightarrow> bool" where
  "wf_world w \<longleftrightarrow> wf_store g_id (groups w) (groupsKeyGen w)
                \<and> wf_store i_id (images w) (imagesKeyGen w)"

definition noFaults :: "world \<Rightarrow> bool" where
  \<comment> \<open>the engine answers every request to come with success\<close>
  "noFaults w \<longleftrightarrow> list_all (\<lambda>oc. oc = Success) (outcomes w)"

section \<open>Database connection\<close>

definition openDB :: "world \<Rightarrow> (error + nat) \<times> world" where
  \<comment> \<open>\<^verbatim>\<open>indexedDB.open(DB_NAME, DB_VERSION)\<close>; the two stores \<^verbatim>\<open>onupgradeneeded\<close> creates
      when they are missing are the (at first empty) stores of the world\<close>
  "openDB w =
     (case nextOutcome w of
        (Failure m, w1) \<Rightarrow> (Inl (DatabaseFailedToOpen (errMessage m)), w1)
      | (Success, w1) \<Rightarrow> (Inr (connections w1), w1\<lparr>connections := Suc (connections w1)\<rparr>))"

section \<open>Group operations\<close>

definition createGroup :: "string \<Rightarrow> world \<Rightarrow> (error + int) \<times> world" where
  "createGroup name w0 =
     (case openDB w0 of
        (Inl e, w1) \<Rightarrow> (Inl e, w1)
      | (Inr db, w1) \<Rightarrow>
          (let w2 = beginTransaction db [''groups''] ReadWrite w1 in
           case now w2 of (createdAt, w3) \<Rightarrow>
           case now w3 of (updatedAt, w4) \<Rightarrow>
           case nextOutcome w4 of
             (Failure m, w5) \<Rightarrow> (Inl (FailedToCreateGroup (errMessage m)), w5)
           | (Success, w5) \<Rightarrow>
               (let key = groupsKeyGen w5;
                    grp = \<lparr>g_id = key, g_name = name,
                             g_createdAt = createdAt, g_updatedAt = updatedAt\<rparr>
                in (Inr key, w5\<lparr>groups := groups w5 @ [grp], groupsKeyGen := key + 1\<rparr>))))"

definition getAllGroups :: "world \<Rightarrow> (error + ImageGroup list) \<times> world" where
  "getAllGroups w0 =
     (case openDB w0 of
        (Inl e, w1) \<Rightarrow> (Inl e, w1)
      | (Inr db, w1) \<Rightarrow>
          (let w2 = beginTransaction db [''groups''] ReadOnly w1 in
           case nextOutcome w2 of
             (Failure m, w3) \<Rightarrow> (Inl (FailedToGetGroups (errMessage m)), w3)
           | (Success, w3) \<Rightarrow> (Inr (groups w3), w3)))"

definition getGroup :: "int \<Rightarrow> world \<Rightarrow> (error + ImageGroup option) \<times> world" where
  \<comment> \<open>\<^verbatim>\<open>null\<close> is \<open>None\<close>\<close>
  "getGroup ident w0 =
     (case openDB w0 of
        (Inl e, w1) \<Rightarrow> (Inl e, w1)
      | (Inr db, w1) \<Rightarrow>
          (let w2 = beginTransaction db [''groups''] ReadOnly w1 in
           case nextOutcome w2 of
             (Failure m, w3) \<Rightarrow> (Inl (FailedToGetGroup (errMessage m)), w3)
           | (Success, w3) \<Rightarrow> (Inr (store_get g_id ident (groups w3)), w3)))"

definition renameGroup :: "int \<Rightarrow> string \<Rightarrow> world \<Rightarrow> (error + unit) \<times> world" where
  "renameGroup groupId newName w0 =
     (case openDB w0 of
        (Inl e, w1) \<Rightarrow> (Inl e, w1)
      | (Inr db, w1) \<Rightarrow>
          (let w2 = beginTransaction db [''groups''] ReadWrite w1 in
           case nextOutcome w2 of
             (Failure m, w3) \<Rightarrow> (Inl (FailedToGetGroup (errMessage m)), w3)
           | (Success, w3) \<Rightarrow>
               (case store_get g_id groupId (groups w3) of
                  None \<Rightarrow> (Inl (GroupNotFound groupId), w3)
                | Some grp \<Rightarrow>
                    (case now w3 of (updatedAt, w4) \<Rightarrow>
                     let grp' = grp\<lparr>g_name := newName, g_updatedAt := updatedAt\<rparr> in
                     case nextOutcome w4 of
                       (Failure m, w5) \<Rightarrow> (Inl (FailedToRenameGroup (errMessage m)), w5)
                     | (Success, w5) \<Rightarrow>
                         (Inr (), w5\<lparr>groups := store_put g_id grp' (groups w5),
                                     groupsKeyGen := max (groupsKeyGen w5) (g_id grp' + 1)\<rparr>)))))"

section \<open>Image operations\<close>

definition addImage :: "int \<Rightarrow> string \<Rightarrow> Blob \<Rightarrow> world \<Rightarrow> (error + int) \<times> world" where
  "addImage groupId name blob w0 =
     (case openDB w0 of
        (Inl e, w1) \<Rightarrow> (Inl e, w1)
      | (Inr db, w1) \<Rightarrow>
          (let w2 = beginTransaction db [''images''] ReadWrite w1 in
           case now w2 of (createdAt, w3) \<Rightarrow>
           case nextOutcome w3 of
             (Failure m, w4) \<Rightarrow> (Inl (FailedToAddImage (errMessage m)), w4)
           | (Success, w4) \<Rightarrow>
               (let key = imagesKeyGen w4;
                    img = \<lparr>i_id = key, i_groupId = groupId, i_name = name,
                             i_blob = blob, i_createdAt = createdAt\<rparr>
                in (Inr key, w4\<lparr>images := images w4 @ [img], imagesKeyGen := key + 1\<rparr>))))"

definition getImagesByGroup :: "int \<Rightarrow> world \<Rightarrow> (error + StoredImage list) \<times> world" where
  "getImagesByGroup groupId w0 =
     (case openDB w0 of
        (Inl e, w1) \<Rightarrow> (Inl e, w1)
      | (Inr db, w1) \<Rightarrow>
          (let w2 = beginTransaction db [''images''] ReadOnly w1 in
           case nextOutcome w2 of
             (Failure m, w3) \<Rightarrow> (Inl (FailedToGetImages (errMessage m)), w3)
           | (Success, w3) \<Rightarrow> (Inr (index_getAll groupId (images w3)), w3)))"

definition renameImage :: "int \<Rightarrow> string \<Rightarrow> world \<Rightarrow> (error + unit) \<times> world" where
  "renameImage imageId newName w0 =
     (case openDB w0 of
        (Inl e, w1) \<Rightarrow> (Inl e, w1)
      | (Inr db, w1) \<Rightarrow>
          (let w2 = beginTransaction db [''images''] ReadWrite w1 in
           case nextOutcome w2 of
             (Failure m, w3) \<Rightarrow> (Inl (FailedToGetImage (errMessage m)), w3)
           | (Success, w3) \<Rightarrow>
               (case store_get i_id imageId (images w3) of
                  None \<Rightarrow> (Inl (ImageNotFound imageId), w3)
                | Some img \<Rightarrow>
                    (let img' = img\<lparr>i_name := newName\<rparr> in
                     case nextOutcome w3 of
                       (Failure m, w4) \<Rightarrow> (Inl (FailedToRenameImage (errMessage m)), w4)
                     | (Success, w4) \<Rightarrow>
                         (Inr (), w4\<lparr>images := store_put i_id img' (images w4),
                                     imagesKeyGen := max (imagesKeyGen w4) (i_id img' + 1)\<rparr>)))))"

definition deleteImage :: "int \<Rightarrow> world \<Rightarrow> (error + unit) \<times> world" where
  "deleteImage imageId w0 =
     (case openDB w0 of
        (Inl e, w1) \<Rightarrow> (Inl e, w1)
      | (Inr db, w1) \<Rightarrow>
          (let w2 = beginTransaction db [''images''] ReadWrite w1 in
           case nextOutcome w2 of
             (Failure m, w3) \<Rightarrow> (Inl (FailedToDeleteImage (errMessage m)), w3)
           | (Success, w3) \<Rightarrow>
               (Inr (), w3\<lparr>images := store_delete i_id imageId (images w3)\<rparr>)))"

text \<open>
  The callback of the cursor request in \<^verbatim>\<open>deleteImagesByGroup\<close>. It runs once for
  every record the cursor stands on, and once more when the cursor is exhausted
  (\<^verbatim>\<open>cursor\<close> is \<^verbatim>\<open>null\<close>). With a record it places two requests, \<^verbatim>\<open>cursor.delete()\<close>
  and \<^verbatim>\<open>cursor.continue()\<close>. The delete request has no handler of its own: when it
  fails the transaction aborts, and the continue request, still pending, is answered with
  the \<^verbatim>\<open>AbortError\<close> (without taking an entry of \<open>outcomes\<close>), which reaches
  \<^verbatim>\<open>request.onerror\<close>. The result is \<open>Inl\<close> of the message \<^verbatim>\<open>request.onerror\<close> sees, or
  \<open>Inr ()\<close> when \<^verbatim>\<open>resolve\<close> is reached.
\<close>

function cursorLoop :: "int \<Rightarrow> int option \<Rightarrow> world \<Rightarrow> (string option + unit) \<times> world" where
  "cursorLoop groupId pos w =
     (case cursor_next groupId pos (images w) of
        None \<Rightarrow> (Inr (), w)
      | Some r \<Rightarrow>
          (case nextOutcome w of
             (Failure m, w1) \<Rightarrow> (Inl (abortMessage w1), w1)
           | (Success, w1) \<Rightarrow>
               (let w2 = w1\<lparr>images := store_delete i_id (i_id r) (images w1)\<rparr> in
                case nextOutcome w2 of
                  (Failure m, w3) \<Rightarrow> (Inl m, w3)
                | (Success, w3) \<Rightarrow> cursorLoop groupId (Some (i_id r)) w3)))"
  by pat_completeness auto

termination cursorLoop
proof (relation "measure (\<lambda>(groupId, pos, w). length (images w))", goal_cases)
  case 1
  show ?case by simp
next
  case (2 groupId pos w r oc w1 w2 oc' w3)
  have same: "images b = images a" if "nextOutcome a = (c, b)" for a b c
    using that by (auto simp: nextOutcome_def split: list.splits)
  from 2(1) have "r \<in> set (images w)"
    by (auto simp: cursor_next_def find_Some_iff)
  then have "length (store_delete i_id (i_id r) (images w)) < length (images w)"
    unfolding store_delete_def by (intro length_filter_less[of r]) auto
  moreover from 2(2) have "images w1 = images w"
    by (metis same)
  moreover from 2(5) have "images w3 = images w2"
    by (metis same)
  ultimately show ?case using 2(4)
    by simp
qed

declare cursorLoop.simps [simp del]

definition deleteImagesByGroup :: "int \<Rightarrow> world \<Rightarrow> (error + unit) \<times> world" where
  \<comment> \<open>when the promise is rejected after the cursor was opened, the transaction has
      aborted and the images are those of before\<close>
  "deleteImagesByGroup groupId w0 =
     (case openDB w0 of
        (Inl e, w1) \<Rightarrow> (Inl e, w1)
      | (Inr db, w1) \<Rightarrow>
          (let w2 = beginTransaction db [''images''] ReadWrite w1 in
           case nextOutcome w2 of
             (Failure m, w3) \<Rightarrow> (Inl (FailedToDeleteImages (errMessage m)), w3)
           | (Success, w3) \<Rightarrow>
               (case cursorLoop groupId None w3 of
                  (Inl m, w4) \<Rightarrow>
                    (Inl (FailedToDeleteImages (errMessage m)), w4\<lparr>images := images w3\<rparr>)
                | (Inr u, w4) \<Rightarrow> (Inr (), w4))))"

definition deleteGroup :: "int \<Rightarrow> world \<Rightarrow> (error + unit) \<times> world" where
  "deleteGroup groupId w0 =
     (case openDB w0 of
        (Inl e, w1) \<Rightarrow> (Inl e, w1)
      | (Inr db, w1) \<Rightarrow>
          (case deleteImagesByGroup groupId w1 of
             (Inl e, w2) \<Rightarrow> (Inl e, w2)
           | (Inr u, w2) \<Rightarrow>
               (let w3 = beginTransaction db [''groups''] ReadWrite w2 in
                case nextOutcome w3 of
                  (Failure m, w4) \<Rightarrow> (Inl (FailedToDeleteGroup (errMessage m)), w4)
                | (Success, w4) \<Rightarrow>
                    (Inr (), w4\<lparr>groups := store_delete g_id groupId (groups w4)\<rparr>))))"

definition opensFresh :: "world \<Rightarrow> world \<Rightarrow> string \<Rightarrow> txmode \<Rightarrow> bool" where
  \<comment> \<open>between \<open>w\<close> and \<open>w'\<close> one connection was opened, and one transaction begun, on
      the handle of that connection\<close>
  "opensFresh w w' store m \<longleftrightarrow>
     connections w' = Suc (connections w)
     \<and> transactions w' = transactions w @
           [\<lparr>tx_connection = connections w, tx_stores = [store], tx_mode = m\<rparr>]"

section \<open>Example databases\<close>

text \<open>
  \<open>emptyWorld\<close> is the database as the first \<^verbatim>\<open>indexedDB.open\<close> creates it: two empty
  stores whose key generators stand at 1. \<open>tripWorld\<close> is a database with two groups and
  three images, two of them in group 1 and one in group 2. Both take the answers of the
  engine as their argument. Their clock advances by one millisecond after its first
  reading.
\<close>

definition tickingClock :: "nat \<Rightarrow> timestamp" where
  "tickingClock n = (if n = 0 then ''2024-01-01T00:00:00.000Z'' else ''2024-01-01T00:00:00.001Z'')"

definition emptyWorld :: "outcome list \<Rightarrow> world" where
  "emptyWorld ocs =
     \<lparr>groups = [], groupsKeyGen = 1, images = [], imagesKeyGen = 1,
      connections = 0, transactions = [], outcomes = ocs,
      clock = tickingClock, clockReads = 0,
      abortMessage = Some ''The transaction was aborted.''\<rparr>"

definition tripWorld :: "outcome list \<Rightarrow> world" where
  "tripWorld ocs =
     \<lparr>groups =
        [\<lparr>g_id = 1, g_name = ''Trip'', g_createdAt = ''2023-12-31T10:00:00.000Z'',
          g_updatedAt = ''2023-12-31T10:00:00.000Z''\<rparr>,
         \<lparr>g_id = 2, g_name = ''B'', g_createdAt = ''2023-12-31T11:00:00.000Z'',
          g_updatedAt = ''2023-12-31T11:30:00.000Z''\<rparr>],
      groupsKeyGen = 3,
      images =
        [\<lparr>i_id = 1, i_groupId = 1, i_name = ''a.jpg'', i_blob = Blob [255, 216] ''image/jpeg'',
          i_createdAt = ''2023-12-31T10:05:00.000Z''\<rparr>,
         \<lparr>i_id = 2, i_groupId = 1, i_name = ''b.jpg'', i_blob = Blob [255, 217] ''image/jpeg'',
          i_createdAt = ''2023-12-31T10:06:00.000Z''\<rparr>,
         \<lparr>i_id = 3, i_groupId = 2, i_name = ''c.png'', i_blob = Blob [137, 80] ''image/png'',
          i_createdAt = ''2023-12-31T11:05:00.000Z''\<rparr>],
      imagesKeyGen = 4,
      connections = 0, transactions = [], outcomes = ocs,
      clock = tickingClock, clockReads = 0,
      abortMessage = Some ''The transaction was aborted.''\<rparr>"

section \<open>The engine's answers and the cursor loop\<close>

lemma nextOutcome_eq:
  "nextOutcome w = (headOutcome (outcomes w), w\<lparr>outcomes := tl (outcomes w)\<rparr>)"
  by (simp add: nextOutcome_def headOutcome_def split: list.splits)

lemma noFaults_head: "list_all (\<lambda>oc. oc = Success) ocs \<Longrightarrow> headOutcome ocs = Success"
  by (cases ocs) (simp_all add: headOutcome_def)

lemma noFaults_tl:
  "list_all (\<lambda>oc. oc = Success) ocs \<Longrightarrow> list_all (\<lambda>oc. oc = Success) (tl ocs)"
  by (cases ocs) simp_all

text \<open>The four ways through one run of the cursor callback.\<close>

lemma cursorLoop_exhausted:
  "cursor_next G pos (images w) = None \<Longrightarrow> cursorLoop G pos w = (Inr (), w)"
  by (simp add: cursorLoop.simps[of G pos w])

lemma cursorLoop_deleteFails:
  "cursor_next G pos (images w) = Some x \<Longrightarrow> headOutcome (outcomes w) = Failure m \<Longrightarrow>
   cursorLoop G pos w = (Inl (abortMessage w), w\<lparr>outcomes := tl (outcomes w)\<rparr>)"
  by (simp add: cursorLoop.simps[of G pos w] nextOutcome_eq)

lemma cursorLoop_continueFails:
  "cursor_next G pos (images w) = Some x \<Longrightarrow> headOutcome (outcomes w) = Success \<Longrightarrow>
   headOutcome (tl (outcomes w)) = Failure m \<Longrightarrow>
   cursorLoop G pos w =
     (Inl m, w\<lparr>images := store_delete i_id (i_id x) (images w), outcomes := tl (tl (outcomes w))\<rparr>)"
  by (simp add: cursorLoop.simps[of G pos w] nextOutcome_eq)

lemma cursorLoop_continue:
  "cursor_next G pos (images w) = Some x \<Longrightarrow> headOutcome (outcomes w) = Success \<Longrightarrow>
   headOutcome (tl (outcomes w)) = Success \<Longrightarrow>
   cursorLoop G pos w =
     cursorLoop G (Some (i_id x))
       (w\<lparr>images := store_delete i_id (i_id x) (images w), outcomes := tl (tl (outcomes w))\<rparr>)"
  by (simp add: cursorLoop.simps[of G pos w] nextOutcome_eq)

lemma cursorLoop_induct [case_names exhausted deleteFails continueFails continue]:
  fixes P :: "int \<Rightarrow> int option \<Rightarrow> world \<Rightarrow> bool"
  assumes "\<And>G pos w. cursor_next G pos (images w) = None \<Longrightarrow> P G pos w"
    and "\<And>G pos w x m. cursor_next G pos (images w) = Some x \<Longrightarrow>
           headOutcome (outcomes w) = Failure m \<Longrightarrow> P G pos w"
    and "\<And>G pos w x m. cursor_next G pos (images w) = Some x \<Longrightarrow>
           headOutcome (outcomes w) = Success \<Longrightarrow>
           headOutcome (tl (outcomes w)) = Failure m \<Longrightarrow> P G pos w"
    and "\<And>G pos w x. cursor_next G pos (images w) = Some x \<Longrightarrow>
           headOutcome (outcomes w) = Success \<Longrightarrow>
           headOutcome (tl (outcomes w)) = Success \<Longrightarrow>
           P G (Some (i_id x))
             (w\<lparr>images := store_delete i_id (i_id x) (images w),
               outcomes := tl (tl (outcomes w))\<rparr>) \<Longrightarrow>
           P G pos w"
  shows "P G pos w"
proof (induction G pos w rule: cursorLoop.induct)
  case (1 G pos w)
  show ?case
  proof (cases "cursor_next G pos (images w)")
    case None
    then show ?thesis by (rule assms(1))
  next
    case (Some x)
    show ?thesis
    proof (cases "headOutcome (outcomes w)")
      case (Failure m)
      with Some show ?thesis by (rule assms(2))
    next
      case Success
      show ?thesis
      proof (cases "headOutcome (tl (outcomes w))")
        case (Failure m)
        with Some Success show ?thesis by (rule assms(3))
      next
        case S2: Success
        have "P G (Some (i_id x))
             (w\<lparr>images := store_delete i_id (i_id x) (images w),
               outcomes := tl (tl (outcomes w))\<rparr>)"
          using "1.IH"[OF Some, of Success "w\<lparr>outcomes := tl (outcomes w)\<rparr>" _ Success]
            Success S2
          by (simp add: nextOutcome_eq)
        with Some Success S2 show ?thesis by (rule assms(4))
      qed
    qed
  qed
qed

lemma cursorLoop_frame:
  "cursorLoop G pos w = (r, w') \<Longrightarrow> w' = w\<lparr>images := images w', outcomes := outcomes w'\<rparr>"
proof (induction G pos w rule: cursorLoop_induct)
  case (exhausted G pos w)
  then show ?case by (simp add: cursorLoop_exhausted)
next
  case (deleteFails G pos w x m)
  then show ?case by (auto simp: cursorLoop_deleteFails)
next
  case (continueFails G pos w x m)
  then show ?case by (auto simp: cursorLoop_continueFails)
next
  case (continue G pos w x)
  then show ?case by (auto simp: cursorLoop_continue)
qed

lemma cursorLoop_noFaults:
  "list_all (\<lambda>oc. oc = Success) (outcomes w) \<Longrightarrow>
   fst (cursorLoop G pos w) = Inr () \<and>
   list_all (\<lambda>oc. oc = Success) (outcomes (snd (cursorLoop G pos w)))"
proof (induction G pos w rule: cursorLoop_induct)
  case (exhausted G pos w)
  then show ?case by (simp add: cursorLoop_exhausted)
next
  case (deleteFails G pos w x m)
  then show ?case by (simp add: noFaults_head)
next
  case (continueFails G pos w x m)
  then show ?case using noFaults_head[OF noFaults_tl] by fastforce
next
  case (continue G pos w x)
  then show ?case by (simp add: cursorLoop_continue noFaults_tl)
qed

text \<open>
  In a store whose keys ascend strictly, a cursor loop that reaches \<^verbatim>\<open>resolve\<close> has
  removed the images of the group and no other. The position of the cursor stays below
  the keys of the group's images that remain.
\<close>

lemma find_first_split:
  "find P xs = Some x \<Longrightarrow> \<exists>ys zs. xs = ys @ x # zs \<and> P x \<and> (\<forall>y\<in>set ys. \<not> P y)"
proof (induction xs)
  case Nil
  then show ?case by simp
next
  case (Cons a xs)
  show ?case
  proof (cases "P a")
    case True
    with Cons.prems have "a = x" by simp
    with True show ?thesis by (intro exI[of _ "[]"] exI[of _ xs]) simp
  next
    case False
    with Cons obtain ys zs where "xs = ys @ x # zs" "P x" "\<forall>y\<in>set ys. \<not> P y"
      by auto
    with False show ?thesis by (intro exI[of _ "a # ys"] exI[of _ zs]) simp
  qed
qed

lemma store_delete_middle:
  assumes "sorted_wrt (<) (map key (ys @ x # zs))"
  shows "store_delete key (key x) (ys @ x # zs) = ys @ zs"
proof -
  from assms have "\<forall>y\<in>set ys. key y < key x" "\<forall>z\<in>set zs. key x < key z"
    by (auto simp: sorted_wrt_append)
  then have "filter (\<lambda>r. key r \<noteq> key x) ys = ys" "filter (\<lambda>r. key r \<noteq> key x) zs = zs"
    by (auto intro!: filter_True)
  then show ?thesis by (simp add: store_delete_def)
qed

lemma cursorLoop_success_images:
  assumes "cursorLoop G pos w = (Inr u, w')"
    and "sorted_wrt (<) (map i_id (images w))"
    and "\<forall>p. pos = Some p \<longrightarrow> (\<forall>r\<in>set (images w). i_groupId r = G \<longrightarrow> p < i_id r)"
  shows "images w' = filter (\<lambda>r. i_groupId r \<noteq> G) (images w)"
  using assms
proof (induction G pos w rule: cursorLoop_induct)
  case (exhausted G pos w)
  from exhausted(1,4) have "\<forall>r\<in>set (images w). i_groupId r \<noteq> G"
    by (cases pos) (auto simp: cursor_next_def find_None_iff)
  then have "filter (\<lambda>r. i_groupId r \<noteq> G) (images w) = images w"
    by (auto intro!: filter_True)
  with exhausted(1,2) show ?case by (simp add: cursorLoop_exhausted)
next
  case (deleteFails G pos w x m)
  then show ?case by (simp add: cursorLoop_deleteFails)
next
  case (continueFails G pos w x m)
  then show ?case by (simp add: cursorLoop_continueFails)
next
  case (continue G pos w x)
  let ?P = "\<lambda>r. i_groupId r = G \<and> (case pos of None \<Rightarrow> True | Some p \<Rightarrow> p < i_id r)"
  from continue(1) obtain ys zs where split: "images w = ys @ x # zs"
    and x: "?P x" and ys: "\<forall>y\<in>set ys. \<not> ?P y"
    unfolding cursor_next_def using find_first_split[of ?P] by blast
  from ys continue(7) split have noG: "\<forall>y\<in>set ys. i_groupId y \<noteq> G"
    by (cases pos) auto
  let ?w = "w\<lparr>images := store_delete i_id (i_id x) (images w), outcomes := tl (tl (outcomes w))\<rparr>"
  have del: "images ?w = ys @ zs"
    using continue(6) split by (simp add: store_delete_middle)
  from continue(6) have order: "sorted_wrt (<) (map i_id (ys @ zs))"
    "\<forall>z\<in>set zs. i_id x < i_id z"
    unfolding split by (auto simp: sorted_wrt_append)
  have sorted': "sorted_wrt (<) (map i_id (images ?w))"
    using order(1) by (simp only: del)
  have "\<forall>r\<in>set (ys @ zs). i_groupId r = G \<longrightarrow> i_id x < i_id r"
    using order(2) noG by auto
  then have inv': "\<forall>p. Some (i_id x) = Some p \<longrightarrow>
      (\<forall>r\<in>set (images ?w). i_groupId r = G \<longrightarrow> p < i_id r)"
    by (simp only: del) simp
  have "cursorLoop G (Some (i_id x)) ?w = (Inr u, w')"
    using continue(1,2,3,5) by (simp add: cursorLoop_continue)
  from continue(4)[OF this sorted' inv'] have "images w' = filter (\<lambda>r. i_groupId r \<noteq> G) (ys @ zs)"
    by (simp only: del)
  with x show ?case by (simp add: split)
qed

section \<open>Bulk deletion of a group's images\<close>

lemma cursorLoop_fields:
  assumes "cursorLoop G pos w = (r, w')"
  shows "groups w' = groups w" "groupsKeyGen w' = groupsKeyGen w"
    "imagesKeyGen w' = imagesKeyGen w" "connections w' = connections w"
    "transactions w' = transactions w" "clock w' = clock w"
    "clockReads w' = clockReads w" "abortMessage w' = abortMessage w"
proof -
  have eq: "w' = w\<lparr>images := images w', outcomes := outcomes w'\<rparr>"
    using assms by (rule cursorLoop_frame)
  show "groups w' = groups w" by (subst eq) simp
  show "groupsKeyGen w' = groupsKeyGen w" by (subst eq) simp
  show "imagesKeyGen w' = imagesKeyGen w" by (subst eq) simp
  show "connections w' = connections w" by (subst eq) simp
  show "transactions w' = transactions w" by (subst eq) simp
  show "clock w' = clock w" by (subst eq) simp
  show "clockReads w' = clockReads w" by (subst eq) simp
  show "abortMessage w' = abortMessage w" by (subst eq) simp
qed

lemma deleteImagesByGroup_fields:
  assumes "deleteImagesByGroup G w = (r, w')"
  shows "groups w' = groups w" "groupsKeyGen w' = groupsKeyGen w"
    "imagesKeyGen w' = imagesKeyGen w" "clock w' = clock w"
    "clockReads w' = clockReads w" "abortMessage w' = abortMessage w"
  using assms
  by (auto simp: deleteImagesByGroup_def openDB_def nextOutcome_eq beginTransaction_def Let_def
      split: outcome.splits prod.splits sum.splits dest: cursorLoop_fields)

lemma deleteImagesByGroup_noFaults:
  assumes "noFaults w"
  shows "fst (deleteImagesByGroup G w) = Inr ()" "noFaults (snd (deleteImagesByGroup G w))"
proof -
  let ?w3 = "beginTransaction (connections w) [''images''] ReadWrite
      (w\<lparr>outcomes := tl (outcomes w), connections := Suc (connections w)\<rparr>)
      \<lparr>outcomes := tl (tl (outcomes w))\<rparr>"
  from assms have h: "headOutcome (outcomes w) = Success" "headOutcome (tl (outcomes w)) = Success"
    "list_all (\<lambda>oc. oc = Success) (outcomes ?w3)"
    by (simp_all add: noFaults_def noFaults_head noFaults_tl beginTransaction_def)
  from cursorLoop_noFaults[OF h(3), of G None] obtain w4 where
    "cursorLoop G None ?w3 = (Inr (), w4)" "list_all (\<lambda>oc. oc = Success) (outcomes w4)"
    by (cases "cursorLoop G None ?w3") auto
  with h(1,2) show "fst (deleteImagesByGroup G w) = Inr ()" "noFaults (snd (deleteImagesByGroup G w))"
    by (simp_all add: deleteImagesByGroup_def openDB_def nextOutcome_eq beginTransaction_def noFaults_def)
qed

lemma deleteImagesByGroup_transactions:
  assumes "deleteImagesByGroup G w = (r, w')"
  shows "transactions w' = transactions w
         \<or> transactions w' = transactions w @
              [\<lparr>tx_connection = connections w, tx_stores = [''images''], tx_mode = ReadWrite\<rparr>]"
  using assms
  by (auto simp: deleteImagesByGroup_def openDB_def nextOutcome_eq beginTransaction_def Let_def
      split: outcome.splits prod.splits sum.splits dest: cursorLoop_fields)

lemma deleteImagesByGroup_images:
  assumes "sorted_wrt (<) (map i_id (images w))" and "deleteImagesByGroup G w = (r, w')"
  shows "case r of
            Inl e \<Rightarrow> images w' = images w
          | Inr u \<Rightarrow> images w' = filter (\<lambda>i. i_groupId i \<noteq> G) (images w)"
  using assms(2,1)
  by (auto simp: deleteImagesByGroup_def openDB_def nextOutcome_eq beginTransaction_def Let_def
      split: outcome.splits prod.splits sum.splits dest!: cursorLoop_success_images)

text \<open>
  C10. \<^verbatim>\<open>deleteImagesByGroup\<close> opens at most one transaction, a read-write transaction on
  the images alone, and is all or nothing: when it fails, the images are those of before
  the call; when it succeeds, exactly the images of the group are gone. The groups are
  never touched.
\<close>

theorem deleteImagesByGroup_all_or_nothing:
  assumes "wf_world w" and "deleteImagesByGroup G w = (r, w')"
  shows "(case r of
            Inl e \<Rightarrow> images w' = images w
          | Inr u \<Rightarrow> images w' = filter (\<lambda>i. i_groupId i \<noteq> G) (images w))
         \<and> groups w' = groups w
         \<and> (transactions w' = transactions w
            \<or> transactions w' = transactions w @
                 [\<lparr>tx_connection = connections w, tx_stores = [''images''], tx_mode = ReadWrite\<rparr>])"
proof -
  from assms(1) have "sorted_wrt (<) (map i_id (images w))"
    by (simp add: wf_world_def wf_store_def)
  then show ?thesis
    using deleteImagesByGroup_images[OF _ assms(2)] deleteImagesByGroup_fields(1)[OF assms(2)]
      deleteImagesByGroup_transactions[OF assms(2)]
    by blast
qed

theorem deleteImagesByGroup_all_or_nothing_witness:
  "wf_world (tripWorld [Success, Success, Success, Failure None])
   \<and> fst (deleteImagesByGroup 1 (tripWorld [Success, Success, Success, Failure None]))
       = Inl (FailedToDeleteImages ''Unknown error'')
   \<and> images (snd (deleteImagesByGroup 1 (tripWorld [Success, Success, Success, Failure None])))
       = images (tripWorld [Success, Success, Success, Failure None])"
proof -
  let ?w = "tripWorld [Success, Success, Success, Failure None]"
  have wf: "wf_world ?w"
    by (simp add: wf_world_def wf_store_def tripWorld_def)
  have r: "fst (deleteImagesByGroup 1 ?w) = Inl (FailedToDeleteImages ''Unknown error'')"
    by code_simp
  have "deleteImagesByGroup 1 ?w = (fst (deleteImagesByGroup 1 ?w), snd (deleteImagesByGroup 1 ?w))"
    by simp
  from deleteImagesByGroup_all_or_nothing[OF wf this] r wf
  show ?thesis by simp
qed

section \<open>Cascading deletion of a group\<close>

lemma deleteImagesByGroup_success_transactions:
  assumes "deleteImagesByGroup G w = (Inr u, w')"
  shows "transactions w' = transactions w @
           [\<lparr>tx_connection = connections w, tx_stores = [''images''], tx_mode = ReadWrite\<rparr>]"
    and "connections w' = Suc (connections w)"
  using assms
  by (auto simp: deleteImagesByGroup_def openDB_def nextOutcome_eq beginTransaction_def Let_def
      split: outcome.splits prod.splits sum.splits dest: cursorLoop_fields)

lemma deleteImagesByGroup_only_images_transactions:
  assumes "deleteImagesByGroup G w = (r, w')"
  shows "\<forall>t\<in>set (transactions w'). t \<in> set (transactions w) \<or> tx_stores t = [''images'']"
  using deleteImagesByGroup_transactions[OF assms] by auto

lemma store_delete_absent: "store_get key k rs = None \<Longrightarrow> store_delete key k rs = rs"
  by (auto simp: store_get_def store_delete_def find_None_iff intro!: filter_True)

lemma openDB_eq:
  "openDB w = (case headOutcome (outcomes w) of
                 Failure m \<Rightarrow> (Inl (DatabaseFailedToOpen (errMessage m)), w\<lparr>outcomes := tl (outcomes w)\<rparr>)
               | Success \<Rightarrow> (Inr (connections w),
                    w\<lparr>outcomes := tl (outcomes w), connections := Suc (connections w)\<rparr>))"
  by (simp add: openDB_def nextOutcome_eq split: outcome.splits)

lemma deleteGroup_success:
  assumes "deleteGroup G w = (Inr u, w')"
  obtains w2 where
    "deleteImagesByGroup G (w\<lparr>outcomes := tl (outcomes w), connections := Suc (connections w)\<rparr>)
       = (Inr (), w2)"
    "w' = w2\<lparr>transactions := transactions w2 @
             [\<lparr>tx_connection = connections w, tx_stores = [''groups''], tx_mode = ReadWrite\<rparr>],
           outcomes := tl (outcomes w2),
           groups := store_delete g_id G (groups w2)\<rparr>"
  using assms
  by (auto simp: deleteGroup_def openDB_eq nextOutcome_eq beginTransaction_def Let_def
      split: outcome.splits prod.splits sum.splits)

lemma deleteGroup_noFaults:
  assumes "noFaults w"
  shows "fst (deleteGroup G w) = Inr ()" "noFaults (snd (deleteGroup G w))"
proof -
  let ?w1 = "w\<lparr>outcomes := tl (outcomes w), connections := Suc (connections w)\<rparr>"
  from assms have h: "headOutcome (outcomes w) = Success" and nf1: "noFaults ?w1"
    by (simp_all add: noFaults_def noFaults_head noFaults_tl)
  obtain w2 where w2: "deleteImagesByGroup G ?w1 = (Inr (), w2)" and nf2: "noFaults w2"
    using deleteImagesByGroup_noFaults[OF nf1, of G] by (cases "deleteImagesByGroup G ?w1") auto
  from nf2 have "headOutcome (outcomes w2) = Success" "list_all (\<lambda>oc. oc = Success) (tl (outcomes w2))"
    by (simp_all add: noFaults_def noFaults_head noFaults_tl)
  with h w2 show "fst (deleteGroup G w) = Inr ()" "noFaults (snd (deleteGroup G w))"
    by (simp_all add: deleteGroup_def openDB_eq nextOutcome_eq beginTransaction_def noFaults_def)
qed

text \<open>
  C1. In a well-formed database, \<^verbatim>\<open>deleteGroup(G)\<close> succeeds whenever the engine reports no
  fault, and after every successful \<^verbatim>\<open>deleteGroup(G)\<close> no image has \<^verbatim>\<open>groupId\<close> \<open>G\<close> and
  no group has \<^verbatim>\<open>id\<close> \<open>G\<close>; all other images and groups are still there.
\<close>

theorem deleteGroup_cascade:
  assumes "wf_world w"
  shows "(noFaults w \<longrightarrow> fst (deleteGroup G w) = Inr ())
       \<and> (\<forall>w'. deleteGroup G w = (Inr (), w') \<longrightarrow>
             (\<forall>i\<in>set (images w'). i_groupId i \<noteq> G)
           \<and> (\<forall>g\<in>set (groups w'). g_id g \<noteq> G)
           \<and> images w' = filter (\<lambda>i. i_groupId i \<noteq> G) (images w)
           \<and> groups w' = filter (\<lambda>g. g_id g \<noteq> G) (groups w))"
proof (intro conjI allI impI)
  assume "noFaults w"
  then show "fst (deleteGroup G w) = Inr ()" by (rule deleteGroup_noFaults)
next
  fix w'
  assume ok: "deleteGroup G w = (Inr (), w')"
  let ?w1 = "w\<lparr>outcomes := tl (outcomes w), connections := Suc (connections w)\<rparr>"
  from ok obtain w2 where w2: "deleteImagesByGroup G ?w1 = (Inr (), w2)"
    and w': "w' = w2\<lparr>transactions := transactions w2 @
             [\<lparr>tx_connection = connections w, tx_stores = [''groups''], tx_mode = ReadWrite\<rparr>],
           outcomes := tl (outcomes w2),
           groups := store_delete g_id G (groups w2)\<rparr>"
    by (rule deleteGroup_success)
  from assms have "sorted_wrt (<) (map i_id (images ?w1))"
    by (simp add: wf_world_def wf_store_def)
  from deleteImagesByGroup_images[OF this w2]
  have imgs: "images w2 = filter (\<lambda>i. i_groupId i \<noteq> G) (images w)" by simp
  from deleteImagesByGroup_fields(1)[OF w2] have grps: "groups w2 = groups w" by simp
  show "images w' = filter (\<lambda>i. i_groupId i \<noteq> G) (images w)"
    using imgs by (simp add: w')
  then show "\<forall>i\<in>set (images w'). i_groupId i \<noteq> G" by simp
  show "groups w' = filter (\<lambda>g. g_id g \<noteq> G) (groups w)"
    using grps by (simp add: w' store_delete_def)
  then show "\<forall>g\<in>set (groups w'). g_id g \<noteq> G" by simp
qed

theorem deleteGroup_cascade_witness:
  "wf_world (tripWorld []) \<and> noFaults (tripWorld [])
   \<and> fst (deleteGroup 1 (tripWorld [])) = Inr ()
   \<and> map i_groupId (images (snd (deleteGroup 1 (tripWorld [])))) = [2]
   \<and> map g_id (groups (snd (deleteGroup 1 (tripWorld [])))) = [2]"
proof -
  have wf: "wf_world (tripWorld [])"
    by (simp add: wf_world_def wf_store_def tripWorld_def)
  have nf: "noFaults (tripWorld [])"
    by (simp add: noFaults_def tripWorld_def)
  from deleteGroup_cascade[OF wf, of 1] nf
  have ok: "fst (deleteGroup 1 (tripWorld [])) = Inr ()" by simp
  then have "deleteGroup 1 (tripWorld []) = (Inr (), snd (deleteGroup 1 (tripWorld [])))"
    by (simp add: prod_eq_iff)
  with deleteGroup_cascade[OF wf, of 1]
  have "images (snd (deleteGroup 1 (tripWorld [])))
          = filter (\<lambda>i. i_groupId i \<noteq> 1) (images (tripWorld []))"
    "groups (snd (deleteGroup 1 (tripWorld [])))
          = filter (\<lambda>g. g_id g \<noteq> 1) (groups (tripWorld []))"
    by blast+
  then have "map i_groupId (images (snd (deleteGroup 1 (tripWorld [])))) = [2]"
    "map g_id (groups (snd (deleteGroup 1 (tripWorld [])))) = [2]"
    by (simp_all add: tripWorld_def)
  with wf nf ok show ?thesis by simp
qed

lemma deleteGroup_imagesFail:
  assumes "openDB w = (Inr db, w1)" and "deleteImagesByGroup G w1 = (Inl e, w2)"
  shows "deleteGroup G w = (Inl e, w2)"
  using assms by (simp add: deleteGroup_def)

lemma openDB_fields:
  assumes "openDB w = (r, w1)"
  shows "groups w1 = groups w" "images w1 = images w" "transactions w1 = transactions w"
    "groupsKeyGen w1 = groupsKeyGen w" "imagesKeyGen w1 = imagesKeyGen w"
    "clock w1 = clock w" "clockReads w1 = clockReads w"
  using assms by (auto simp: openDB_eq split: outcome.splits)

lemma openDB_success:
  assumes "openDB w = (Inr db, w1)"
  shows "db = connections w" "connections w1 = Suc (connections w)"
    "w1 = w\<lparr>outcomes := tl (outcomes w), connections := Suc (connections w)\<rparr>"
  using assms by (auto simp: openDB_eq split: outcome.splits)

text \<open>
  C2. The two phases of \<^verbatim>\<open>deleteGroup\<close> run in order. When the deletion of the images
  fails, \<^verbatim>\<open>deleteGroup\<close> fails with the same error in the same state, the groups are
  unchanged and no transaction on the groups was opened. The groups change only if the
  deletion of the images succeeded. On success the transaction on the images comes first
  in the log and the transaction on the groups second.
\<close>

theorem deleteGroup_phases:
  assumes "openDB w = (Inr db, w1)"
  shows "(\<forall>e w2. deleteImagesByGroup G w1 = (Inl e, w2) \<longrightarrow>
             deleteGroup G w = (Inl e, w2) \<and> groups w2 = groups w
           \<and> (\<forall>t\<in>set (transactions w2). t \<in> set (transactions w) \<or> tx_stores t = [''images'']))
       \<and> (\<forall>r w'. deleteGroup G w = (r, w') \<longrightarrow> groups w' \<noteq> groups w \<longrightarrow>
             fst (deleteImagesByGroup G w1) = Inr ())
       \<and> (\<forall>w'. deleteGroup G w = (Inr (), w') \<longrightarrow>
             transactions w' = transactions w @
               [\<lparr>tx_connection = Suc db, tx_stores = [''images''], tx_mode = ReadWrite\<rparr>,
                \<lparr>tx_connection = db, tx_stores = [''groups''], tx_mode = ReadWrite\<rparr>])"
proof (intro conjI allI impI)
  fix e w2
  assume fail: "deleteImagesByGroup G w1 = (Inl e, w2)"
  show "deleteGroup G w = (Inl e, w2)"
    using assms fail by (rule deleteGroup_imagesFail)
  show "groups w2 = groups w"
    using deleteImagesByGroup_fields(1)[OF fail] openDB_fields(1)[OF assms] by simp
  show "\<forall>t\<in>set (transactions w2). t \<in> set (transactions w) \<or> tx_stores t = [''images'']"
    using deleteImagesByGroup_only_images_transactions[OF fail] openDB_fields(3)[OF assms]
    by simp
next
  fix r w'
  assume run: "deleteGroup G w = (r, w')" and changed: "groups w' \<noteq> groups w"
  show "fst (deleteImagesByGroup G w1) = Inr ()"
  proof (cases "deleteImagesByGroup G w1")
    case (Pair r1 w2)
    show ?thesis
    proof (cases r1)
      case (Inl e)
      with Pair assms have "deleteGroup G w = (Inl e, w2)"
        by (simp add: deleteGroup_imagesFail)
      with run have "w' = w2" by simp
      moreover have "groups w2 = groups w"
        using deleteImagesByGroup_fields(1)[OF Pair] openDB_fields(1)[OF assms] by simp
      ultimately show ?thesis using changed by simp
    next
      case (Inr u)
      with Pair show ?thesis by simp
    qed
  qed
next
  fix w'
  assume ok: "deleteGroup G w = (Inr (), w')"
  from ok obtain w2 where w2: "deleteImagesByGroup G
        (w\<lparr>outcomes := tl (outcomes w), connections := Suc (connections w)\<rparr>) = (Inr (), w2)"
    and w': "w' = w2\<lparr>transactions := transactions w2 @
             [\<lparr>tx_connection = connections w, tx_stores = [''groups''], tx_mode = ReadWrite\<rparr>],
           outcomes := tl (outcomes w2),
           groups := store_delete g_id G (groups w2)\<rparr>"
    by (rule deleteGroup_success)
  from deleteImagesByGroup_success_transactions(1)[OF w2] openDB_success(1)[OF assms]
  show "transactions w' = transactions w @
               [\<lparr>tx_connection = Suc db, tx_stores = [''images''], tx_mode = ReadWrite\<rparr>,
                \<lparr>tx_connection = db, tx_stores = [''groups''], tx_mode = ReadWrite\<rparr>]"
    by (simp add: w')
qed

theorem deleteGroup_phases_witness:
  "openDB (tripWorld [Success, Success, Failure (Some ''quota'')])
     = (Inr 0, snd (openDB (tripWorld [Success, Success, Failure (Some ''quota'')])))
   \<and> fst (deleteImagesByGroup 1
          (snd (openDB (tripWorld [Success, Success, Failure (Some ''quota'')]))))
     = Inl (FailedToDeleteImages ''quota'')
   \<and> fst (deleteGroup 1 (tripWorld [Success, Success, Failure (Some ''quota'')]))
     = Inl (FailedToDeleteImages ''quota'')
   \<and> groups (snd (deleteGroup 1 (tripWorld [Success, Success, Failure (Some ''quota'')])))
     = groups (tripWorld [Success, Success, Failure (Some ''quota'')])"
proof -
  let ?w = "tripWorld [Success, Success, Failure (Some ''quota'')]"
  let ?w1 = "snd (openDB ?w)"
  have opened: "openDB ?w = (Inr 0, ?w1)"
    by (simp add: openDB_def nextOutcome_def tripWorld_def)
  have r: "fst (deleteImagesByGroup 1 ?w1) = Inl (FailedToDeleteImages ''quota'')"
    by code_simp
  then have failed: "deleteImagesByGroup 1 ?w1
      = (Inl (FailedToDeleteImages ''quota''), snd (deleteImagesByGroup 1 ?w1))"
    by (simp add: prod_eq_iff)
  from deleteGroup_phases[OF opened, of 1] failed
  have dg: "deleteGroup 1 ?w
      = (Inl (FailedToDeleteImages ''quota''), snd (deleteImagesByGroup 1 ?w1))"
    and same: "groups (snd (deleteImagesByGroup 1 ?w1)) = groups ?w"
    by blast+
  have "fst (deleteGroup 1 ?w) = Inl (FailedToDeleteImages ''quota'')"
    by (simp only: dg fst_conv)
  moreover have "groups (snd (deleteGroup 1 ?w)) = groups ?w"
    by (simp only: dg snd_conv same)
  ultimately show ?thesis using opened r by blast
qed

section \<open>Deleting what is not there\<close>

lemma deleteImage_eq:
  "deleteImage k w =
     (case headOutcome (outcomes w) of
        Failure m \<Rightarrow> (Inl (DatabaseFailedToOpen (errMessage m)), w\<lparr>outcomes := tl (outcomes w)\<rparr>)
      | Success \<Rightarrow>
          (case headOutcome (tl (outcomes w)) of
             Failure m \<Rightarrow>
               (Inl (FailedToDeleteImage (errMessage m)),
                w\<lparr>outcomes := tl (tl (outcomes w)), connections := Suc (connections w),
                  transactions := transactions w @
                    [\<lparr>tx_connection = connections w, tx_stores = [''images''], tx_mode = ReadWrite\<rparr>]\<rparr>)
           | Success \<Rightarrow>
               (Inr (),
                w\<lparr>outcomes := tl (tl (outcomes w)), connections := Suc (connections w),
                  transactions := transactions w @
                    [\<lparr>tx_connection = connections w, tx_stores = [''images''], tx_mode = ReadWrite\<rparr>],
                  images := store_delete i_id k (images w)\<rparr>)))"
  by (simp add: deleteImage_def openDB_eq nextOutcome_eq beginTransaction_def Let_def
      split: outcome.splits)

lemma deleteImage_noFaults:
  assumes "noFaults w"
  shows "fst (deleteImage k w) = Inr ()" "noFaults (snd (deleteImage k w))"
    "images (snd (deleteImage k w)) = store_delete i_id k (images w)"
proof -
  from assms have "headOutcome (outcomes w) = Success" "headOutcome (tl (outcomes w)) = Success"
    "list_all (\<lambda>oc. oc = Success) (tl (tl (outcomes w)))"
    by (simp_all add: noFaults_def noFaults_head noFaults_tl)
  then show "fst (deleteImage k w) = Inr ()" "noFaults (snd (deleteImage k w))"
    "images (snd (deleteImage k w)) = store_delete i_id k (images w)"
    by (simp_all add: deleteImage_eq noFaults_def)
qed

lemma deleteGroup_groups:
  assumes "deleteGroup G w = (Inr u, w')"
  shows "groups w' = store_delete g_id G (groups w)"
proof -
  from assms obtain w2 where w2: "deleteImagesByGroup G
        (w\<lparr>outcomes := tl (outcomes w), connections := Suc (connections w)\<rparr>) = (Inr (), w2)"
    and w': "w' = w2\<lparr>transactions := transactions w2 @
             [\<lparr>tx_connection = connections w, tx_stores = [''groups''], tx_mode = ReadWrite\<rparr>],
           outcomes := tl (outcomes w2),
           groups := store_delete g_id G (groups w2)\<rparr>"
    by (rule deleteGroup_success)
  from deleteImagesByGroup_fields(1)[OF w2] show ?thesis by (simp add: w')
qed

text \<open>
  C3. When the engine reports no fault, \<^verbatim>\<open>deleteImage(id)\<close> and \<^verbatim>\<open>deleteGroup(id)\<close> succeed
  whether or not a record with the id exists; with no such record the store is left as it
  is. After either delete the id is absent, and the same delete called again succeeds.
\<close>

theorem delete_missing_is_no_error:
  assumes "noFaults w"
  shows "fst (deleteImage k w) = Inr ()
       \<and> (store_get i_id k (images w) = None \<longrightarrow> images (snd (deleteImage k w)) = images w)
       \<and> store_get i_id k (images (snd (deleteImage k w))) = None
       \<and> fst (deleteImage k (snd (deleteImage k w))) = Inr ()
       \<and> fst (deleteGroup k w) = Inr ()
       \<and> (store_get g_id k (groups w) = None \<longrightarrow> groups (snd (deleteGroup k w)) = groups w)
       \<and> store_get g_id k (groups (snd (deleteGroup k w))) = None
       \<and> fst (deleteGroup k (snd (deleteGroup k w))) = Inr ()"
proof -
  have img: "fst (deleteImage k w) = Inr ()"
    and img2: "fst (deleteImage k (snd (deleteImage k w))) = Inr ()"
    using deleteImage_noFaults(1) deleteImage_noFaults(2)[OF assms] assms by blast+
  have grp: "fst (deleteGroup k w) = Inr ()"
    and grp2: "fst (deleteGroup k (snd (deleteGroup k w))) = Inr ()"
    using deleteGroup_noFaults(1) deleteGroup_noFaults(2)[OF assms] assms by blast+
  from grp have "deleteGroup k w = (Inr (), snd (deleteGroup k w))"
    by (simp add: prod_eq_iff)
  then have grps: "groups (snd (deleteGroup k w)) = store_delete g_id k (groups w)"
    by (rule deleteGroup_groups)
  have gone: "store_get key k (store_delete key k rs) = None" for key :: "'v \<Rightarrow> int" and rs
    by (simp add: store_get_def store_delete_def find_None_iff)
  show ?thesis
    using img img2 grp grp2 grps deleteImage_noFaults(3)[OF assms, of k]
    by (simp add: store_delete_absent gone)
qed

theorem delete_missing_is_no_error_witness:
  "noFaults (tripWorld [])
   \<and> store_get i_id 7 (images (tripWorld [])) = None
   \<and> fst (deleteImage 7 (tripWorld [])) = Inr ()
   \<and> images (snd (deleteImage 7 (tripWorld []))) = images (tripWorld [])
   \<and> fst (deleteGroup 1 (snd (deleteGroup 1 (tripWorld [])))) = Inr ()"
proof -
  have nf: "noFaults (tripWorld [])"
    by (simp add: noFaults_def tripWorld_def)
  have absent: "store_get i_id 7 (images (tripWorld [])) = None"
    by (simp add: store_get_def tripWorld_def)
  from delete_missing_is_no_error[OF nf, of 7] absent
  have "fst (deleteImage 7 (tripWorld [])) = Inr ()"
    "images (snd (deleteImage 7 (tripWorld []))) = images (tripWorld [])"
    by simp_all
  moreover from delete_missing_is_no_error[OF nf, of 1]
  have "fst (deleteGroup 1 (snd (deleteGroup 1 (tripWorld [])))) = Inr ()"
    by simp
  ultimately show ?thesis using nf absent by simp
qed

section \<open>Renaming\<close>

lemma store_get_Some:
  "store_get key k rs = Some v \<Longrightarrow> key v = k \<and> v \<in> set rs"
  by (auto simp: store_get_def find_Some_iff)

lemma store_put_present:
  "store_get key (key v) rs = Some u \<Longrightarrow>
   store_put key v rs = map (\<lambda>r. if key r = key v then v else r) rs"
proof -
  assume "store_get key (key v) rs = Some u"
  then have "key u = key v" "u \<in> set rs" by (auto dest: store_get_Some)
  then have "key v \<in> set (map key rs)" by (metis imageI set_map)
  then show ?thesis by (simp add: store_put_def)
qed

lemma store_get_replace:
  "key v = k \<Longrightarrow>
   store_get key j (map (\<lambda>r. if key r = k then v else r) rs) =
     (if j = k then (case store_get key k rs of None \<Rightarrow> None | Some u \<Rightarrow> Some v)
      else store_get key j rs)"
  by (induction rs) (auto simp: store_get_def)

lemma keys_replace:
  "key v = k \<Longrightarrow> map key (map (\<lambda>r. if key r = k then v else r) rs) = map key rs"
  by (induction rs) auto

lemma renameGroup_success:
  assumes "renameGroup k n w = (Inr u, w')"
  obtains g where "store_get g_id k (groups w) = Some g"
    "groups w' = store_put g_id (g\<lparr>g_name := n, g_updatedAt := clock w (clockReads w)\<rparr>) (groups w)"
    "images w' = images w"
  using assms
  by (auto simp: renameGroup_def openDB_eq nextOutcome_eq beginTransaction_def now_def Let_def
      split: outcome.splits option.splits)

lemma renameImage_success:
  assumes "renameImage k n w = (Inr u, w')"
  obtains i where "store_get i_id k (images w) = Some i"
    "images w' = store_put i_id (i\<lparr>i_name := n\<rparr>) (images w)"
    "groups w' = groups w"
  using assms
  by (auto simp: renameImage_def openDB_eq nextOutcome_eq beginTransaction_def Let_def
      split: outcome.splits option.splits)

text \<open>
  C4. A successful \<^verbatim>\<open>renameGroup(id, newName)\<close> replaces the stored group by itself with a
  new \<^verbatim>\<open>name\<close> and \<^verbatim>\<open>updatedAt\<close>: \<^verbatim>\<open>id\<close> and \<^verbatim>\<open>createdAt\<close> are unchanged, every other group and
  every image is as before. A successful \<^verbatim>\<open>renameImage(id, newName)\<close> changes the \<^verbatim>\<open>name\<close> alone:
  \<^verbatim>\<open>id\<close>, \<^verbatim>\<open>groupId\<close>, \<^verbatim>\<open>blob\<close> and \<^verbatim>\<open>createdAt\<close> are unchanged, as are the other images and
  the groups.
\<close>

theorem rename_changes_only_name:
  "(\<forall>u w'. renameGroup k n w = (Inr u, w') \<longrightarrow>
      (\<exists>g g'. store_get g_id k (groups w) = Some g
         \<and> store_get g_id k (groups w') = Some g'
         \<and> g' = g\<lparr>g_name := n, g_updatedAt := clock w (clockReads w)\<rparr>
         \<and> g_id g' = g_id g \<and> g_createdAt g' = g_createdAt g)
      \<and> (\<forall>j. j \<noteq> k \<longrightarrow> store_get g_id j (groups w') = store_get g_id j (groups w))
      \<and> map g_id (groups w') = map g_id (groups w)
      \<and> images w' = images w)
   \<and> (\<forall>u w'. renameImage k n w = (Inr u, w') \<longrightarrow>
      (\<exists>i i'. store_get i_id k (images w) = Some i
         \<and> store_get i_id k (images w') = Some i'
         \<and> i' = i\<lparr>i_name := n\<rparr>
         \<and> i_id i' = i_id i \<and> i_groupId i' = i_groupId i
         \<and> i_blob i' = i_blob i \<and> i_createdAt i' = i_createdAt i)
      \<and> (\<forall>j. j \<noteq> k \<longrightarrow> store_get i_id j (images w') = store_get i_id j (images w))
      \<and> map i_id (images w') = map i_id (images w)
      \<and> groups w' = groups w)"
proof (intro conjI allI impI)
  fix u w'
  assume run: "renameGroup k n w = (Inr u, w')"
  then obtain g where g: "store_get g_id k (groups w) = Some g"
    and w': "groups w' = store_put g_id (g\<lparr>g_name := n, g_updatedAt := clock w (clockReads w)\<rparr>) (groups w)"
    and im: "images w' = images w"
    by (rule renameGroup_success)
  let ?g' = "g\<lparr>g_name := n, g_updatedAt := clock w (clockReads w)\<rparr>"
  from g have key: "g_id ?g' = k" by (auto dest: store_get_Some)
  with g w' have eq: "groups w' = map (\<lambda>r. if g_id r = k then ?g' else r) (groups w)"
    using store_put_present[of g_id ?g' "groups w" g] by simp
  show "\<exists>g g'. store_get g_id k (groups w) = Some g
         \<and> store_get g_id k (groups w') = Some g'
         \<and> g' = g\<lparr>g_name := n, g_updatedAt := clock w (clockReads w)\<rparr>
         \<and> g_id g' = g_id g \<and> g_createdAt g' = g_createdAt g"
    using g key by (intro exI[of _ g] exI[of _ ?g']) (simp add: eq store_get_replace)
  show "store_get g_id j (groups w') = store_get g_id j (groups w)" if "j \<noteq> k" for j
    using that key by (simp add: eq store_get_replace)
  show "map g_id (groups w') = map g_id (groups w)"
    using key by (simp only: eq keys_replace)
  show "images w' = images w" by (rule im)
next
  fix u w'
  assume run: "renameImage k n w = (Inr u, w')"
  then obtain i where i: "store_get i_id k (images w) = Some i"
    and w': "images w' = store_put i_id (i\<lparr>i_name := n\<rparr>) (images w)"
    and gr: "groups w' = groups w"
    by (rule renameImage_success)
  let ?i' = "i\<lparr>i_name := n\<rparr>"
  from i have key: "i_id ?i' = k" by (auto dest: store_get_Some)
  with i w' have eq: "images w' = map (\<lambda>r. if i_id r = k then ?i' else r) (images w)"
    using store_put_present[of i_id ?i' "images w" i] by simp
  show "\<exists>i i'. store_get i_id k (images w) = Some i
         \<and> store_get i_id k (images w') = Some i'
         \<and> i' = i\<lparr>i_name := n\<rparr>
         \<and> i_id i' = i_id i \<and> i_groupId i' = i_groupId i
         \<and> i_blob i' = i_blob i \<and> i_createdAt i' = i_createdAt i"
    using i key by (intro exI[of _ i] exI[of _ ?i']) (simp add: eq store_get_replace)
  show "store_get i_id j (images w') = store_get i_id j (images w)" if "j \<noteq> k" for j
    using that key by (simp add: eq store_get_replace)
  show "map i_id (images w') = map i_id (images w)"
    using key by (simp only: eq keys_replace)
  show "groups w' = groups w" by (rule gr)
qed

theorem rename_changes_only_name_witness:
  "renameGroup 1 ''Summer'' (tripWorld []) = (Inr (), snd (renameGroup 1 ''Summer'' (tripWorld [])))
   \<and> map g_id (groups (snd (renameGroup 1 ''Summer'' (tripWorld [])))) = [1, 2]
   \<and> images (snd (renameGroup 1 ''Summer'' (tripWorld []))) = images (tripWorld [])
   \<and> renameImage 2 ''beach.jpg'' (tripWorld [])
       = (Inr (), snd (renameImage 2 ''beach.jpg'' (tripWorld [])))
   \<and> map i_id (images (snd (renameImage 2 ''beach.jpg'' (tripWorld [])))) = [1, 2, 3]
   \<and> groups (snd (renameImage 2 ''beach.jpg'' (tripWorld []))) = groups (tripWorld [])"
proof -
  have "fst (renameGroup 1 ''Summer'' (tripWorld [])) = Inr ()"
    by code_simp
  then have g: "renameGroup 1 ''Summer'' (tripWorld [])
      = (Inr (), snd (renameGroup 1 ''Summer'' (tripWorld [])))"
    by (simp add: prod_eq_iff)
  have "fst (renameImage 2 ''beach.jpg'' (tripWorld [])) = Inr ()"
    by code_simp
  then have i: "renameImage 2 ''beach.jpg'' (tripWorld [])
      = (Inr (), snd (renameImage 2 ''beach.jpg'' (tripWorld [])))"
    by (simp add: prod_eq_iff)
  have ids: "map g_id (groups (tripWorld [])) = [1, 2]" "map i_id (images (tripWorld [])) = [1, 2, 3]"
    by (simp_all add: tripWorld_def)
  from rename_changes_only_name[of 1 "''Summer''" "tripWorld []"] g
  have "map g_id (groups (snd (renameGroup 1 ''Summer'' (tripWorld [])))) = map g_id (groups (tripWorld []))"
    "images (snd (renameGroup 1 ''Summer'' (tripWorld []))) = images (tripWorld [])"
    by blast+
  moreover from rename_changes_only_name[of 2 "''beach.jpg''" "tripWorld []"] i
  have "map i_id (images (snd (renameImage 2 ''beach.jpg'' (tripWorld [])))) = map i_id (images (tripWorld []))"
    "groups (snd (renameImage 2 ''beach.jpg'' (tripWorld []))) = groups (tripWorld [])"
    by blast+
  ultimately show ?thesis using g i ids by simp
qed

section \<open>Records that do not exist\<close>

lemma noFaults_three:
  assumes "noFaults w"
  shows "headOutcome (outcomes w) = Success" "headOutcome (tl (outcomes w)) = Success"
    "headOutcome (tl (tl (outcomes w))) = Success"
  using assms by (simp_all add: noFaults_def noFaults_head noFaults_tl)

text \<open>
  C5. When the engine reports no fault and no group has the id, \<^verbatim>\<open>getGroup(id)\<close> succeeds
  with \<^verbatim>\<open>null\<close>, while \<^verbatim>\<open>renameGroup(id, newName)\<close> fails with the not-found error and leaves
  the groups as they are; the same holds for \<^verbatim>\<open>renameImage\<close> on an id no image has.
\<close>

theorem missing_record_semantics:
  assumes "noFaults w"
  shows "(store_get g_id k (groups w) = None \<longrightarrow>
            fst (getGroup k w) = Inr None
          \<and> fst (renameGroup k n w) = Inl (GroupNotFound k)
          \<and> groups (snd (renameGroup k n w)) = groups w)
       \<and> (store_get i_id k (images w) = None \<longrightarrow>
            fst (renameImage k n w) = Inl (ImageNotFound k)
          \<and> images (snd (renameImage k n w)) = images w)"
  using noFaults_three[OF assms]
  by (simp add: getGroup_def renameGroup_def renameImage_def openDB_eq nextOutcome_eq
      beginTransaction_def Let_def)

theorem missing_record_semantics_witness:
  "noFaults (tripWorld []) \<and> store_get g_id 9 (groups (tripWorld [])) = None
   \<and> store_get i_id 9 (images (tripWorld [])) = None
   \<and> fst (getGroup 9 (tripWorld [])) = Inr None
   \<and> fst (renameGroup 9 ''X'' (tripWorld [])) = Inl (GroupNotFound 9)
   \<and> fst (renameImage 9 ''X'' (tripWorld [])) = Inl (ImageNotFound 9)"
proof -
  have nf: "noFaults (tripWorld [])"
    by (simp add: noFaults_def tripWorld_def)
  have absent: "store_get g_id 9 (groups (tripWorld [])) = None"
    "store_get i_id 9 (images (tripWorld [])) = None"
    by (simp_all add: store_get_def tripWorld_def)
  from missing_record_semantics[OF nf, of 9 "''X''"] nf absent show ?thesis
    by simp
qed

section \<open>Empty names\<close>

text \<open>
  C7 says that \<^verbatim>\<open>renameGroup(id, "")\<close> is rejected and the stored name stays. The service
  has no check of the name: on the example database \<^verbatim>\<open>renameGroup(1, "")\<close> succeeds and
  group 1, named \<^verbatim>\<open>Trip\<close> before, has the empty name afterwards.
\<close>

theorem renameGroup_empty_name_counterexample:
  "fst (renameGroup 1 [] (tripWorld [])) = Inr ()
   \<and> map g_name (groups (tripWorld [])) = [''Trip'', ''B'']
   \<and> map g_name (groups (snd (renameGroup 1 [] (tripWorld [])))) = [[], ''B'']"
  by code_simp

lemma renameGroup_result_any_name:
  "fst (renameGroup k n w) = fst (renameGroup k n' w)"
  by (simp add: renameGroup_def openDB_eq nextOutcome_eq beginTransaction_def now_def Let_def
      split: outcome.splits option.splits)

lemma renameGroup_noFaults:
  assumes "noFaults w" and "store_get g_id k (groups w) = Some g"
  shows "renameGroup k n w = (Inr (), snd (renameGroup k n w))"
  using noFaults_three[OF assms(1)] assms(2)
  by (simp add: renameGroup_def openDB_eq nextOutcome_eq beginTransaction_def now_def Let_def)

text \<open>
  C7, as the service behaves: whether \<^verbatim>\<open>renameGroup\<close> succeeds does not depend on the new
  name, and with no fault of the engine \<^verbatim>\<open>renameGroup(id, "")\<close> on an existing group
  succeeds and stores the empty name. (The components that call the service trim the name
  and refuse an empty one before they call.)
\<close>

theorem renameGroup_accepts_empty_name:
  "fst (renameGroup k n w) = fst (renameGroup k [] w)
   \<and> (noFaults w \<longrightarrow> store_get g_id k (groups w) \<noteq> None \<longrightarrow>
        fst (renameGroup k [] w) = Inr ()
      \<and> (\<exists>g. store_get g_id k (groups (snd (renameGroup k [] w))) = Some g \<and> g_name g = []))"
proof (intro conjI impI)
  show "fst (renameGroup k n w) = fst (renameGroup k [] w)"
    by (rule renameGroup_result_any_name)
next
  assume nf: "noFaults w" and "store_get g_id k (groups w) \<noteq> None"
  then obtain g where g: "store_get g_id k (groups w) = Some g" by auto
  from renameGroup_noFaults[OF nf g] have run: "renameGroup k [] w = (Inr (), snd (renameGroup k [] w))" .
  then show "fst (renameGroup k [] w) = Inr ()" by (simp add: prod_eq_iff)
  from run obtain g0 where g0: "store_get g_id k (groups w) = Some g0"
    and w': "groups (snd (renameGroup k [] w)) =
       store_put g_id (g0\<lparr>g_name := [], g_updatedAt := clock w (clockReads w)\<rparr>) (groups w)"
    by (rule renameGroup_success)
  let ?g' = "g0\<lparr>g_name := [], g_updatedAt := clock w (clockReads w)\<rparr>"
  from g0 have key: "g_id ?g' = k" by (auto dest: store_get_Some)
  with g0 w' have "groups (snd (renameGroup k [] w)) = map (\<lambda>r. if g_id r = k then ?g' else r) (groups w)"
    using store_put_present[of g_id ?g' "groups w" g0] by simp
  with g0 key have "store_get g_id k (groups (snd (renameGroup k [] w))) = Some ?g'"
    by (simp add: store_get_replace)
  then show "\<exists>g. store_get g_id k (groups (snd (renameGroup k [] w))) = Some g \<and> g_name g = []"
    by simp
qed

theorem renameGroup_accepts_empty_name_witness:
  "noFaults (tripWorld [])
   \<and> map_option g_name (store_get g_id 2 (groups (tripWorld []))) = Some ''B''
   \<and> fst (renameGroup 2 [] (tripWorld [])) = Inr ()
   \<and> map_option g_name (store_get g_id 2 (groups (snd (renameGroup 2 [] (tripWorld [])))))
       = Some []"
proof -
  have nf: "noFaults (tripWorld [])"
    by (simp add: noFaults_def tripWorld_def)
  have present: "map_option g_name (store_get g_id 2 (groups (tripWorld []))) = Some ''B''"
    by (simp add: store_get_def tripWorld_def)
  then have "store_get g_id 2 (groups (tripWorld [])) \<noteq> None"
    by auto
  with renameGroup_accepts_empty_name[of 2 "[]" "tripWorld []"] nf
  have "fst (renameGroup 2 [] (tripWorld [])) = Inr ()"
    "\<exists>g. store_get g_id 2 (groups (snd (renameGroup 2 [] (tripWorld [])))) = Some g
          \<and> g_name g = []"
    by blast+
  with nf present show ?thesis by auto
qed

section \<open>Images of a group\<close>

lemma addImage_noFaults:
  assumes "noFaults w"
  shows "addImage G n b w = (Inr (imagesKeyGen w), snd (addImage G n b w))"
    "noFaults (snd (addImage G n b w))"
  using noFaults_three[OF assms] assms
  by (simp_all add: addImage_def openDB_eq nextOutcome_eq beginTransaction_def now_def Let_def
      noFaults_def noFaults_tl)

lemma addImage_success:
  assumes "addImage G n b w = (Inr k, w')"
  shows "k = imagesKeyGen w"
    "images w' = images w @ [\<lparr>i_id = k, i_groupId = G, i_name = n, i_blob = b,
                               i_createdAt = clock w (clockReads w)\<rparr>]"
    "imagesKeyGen w' = k + 1" "groups w' = groups w"
    "outcomes w' = tl (tl (outcomes w))"
  using assms
  by (auto simp: addImage_def openDB_eq nextOutcome_eq beginTransaction_def now_def Let_def
      split: outcome.splits)

lemma getImagesByGroup_noFaults:
  assumes "noFaults w"
  shows "fst (getImagesByGroup G w) = Inr (filter (\<lambda>i. i_groupId i = G) (images w))"
  using noFaults_three[OF assms]
  by (simp add: getImagesByGroup_def openDB_eq nextOutcome_eq beginTransaction_def Let_def
      index_getAll_def)

lemma getImagesByGroup_ignores_groups:
  "fst (getImagesByGroup G (w\<lparr>groups := gs\<rparr>)) = fst (getImagesByGroup G w)"
  by (simp add: getImagesByGroup_def openDB_eq nextOutcome_eq beginTransaction_def Let_def
      split: outcome.splits)

text \<open>
  C6. When the engine reports no fault, \<^verbatim>\<open>getImagesByGroup(G)\<close> returns exactly the stored
  images whose \<^verbatim>\<open>groupId\<close> is \<open>G\<close>, in key order, and the empty list when there is none;
  the groups play no part in the result, so a group that does not exist gives no error.
  After a successful \<^verbatim>\<open>addImage(G', name, blob)\<close> the result for \<open>G\<close> is the former result,
  followed by the new image if \<open>G' = G\<close>.
\<close>

theorem getImagesByGroup_index:
  assumes "noFaults w"
  shows "(\<exists>xs. fst (getImagesByGroup G w) = Inr xs
            \<and> set xs = {i \<in> set (images w). i_groupId i = G}
            \<and> xs = filter (\<lambda>i. i_groupId i = G) (images w)
            \<and> ((\<forall>i\<in>set (images w). i_groupId i \<noteq> G) \<longrightarrow> xs = []))
       \<and> (\<forall>gs. fst (getImagesByGroup G (w\<lparr>groups := gs\<rparr>)) = fst (getImagesByGroup G w))
       \<and> (\<forall>k w'. addImage G' n b w = (Inr k, w') \<longrightarrow>
            fst (getImagesByGroup G w') =
              Inr (filter (\<lambda>i. i_groupId i = G) (images w) @
                   (if G' = G
                    then [\<lparr>i_id = k, i_groupId = G', i_name = n, i_blob = b,
                            i_createdAt = clock w (clockReads w)\<rparr>]
                    else [])))"
proof (intro conjI allI impI)
  show "\<exists>xs. fst (getImagesByGroup G w) = Inr xs
            \<and> set xs = {i \<in> set (images w). i_groupId i = G}
            \<and> xs = filter (\<lambda>i. i_groupId i = G) (images w)
            \<and> ((\<forall>i\<in>set (images w). i_groupId i \<noteq> G) \<longrightarrow> xs = [])"
    using getImagesByGroup_noFaults[OF assms, of G]
    by (intro exI[of _ "filter (\<lambda>i. i_groupId i = G) (images w)"]) (auto simp: filter_empty_conv)
next
  fix gs
  show "fst (getImagesByGroup G (w\<lparr>groups := gs\<rparr>)) = fst (getImagesByGroup G w)"
    by (rule getImagesByGroup_ignores_groups)
next
  fix k w'
  assume add: "addImage G' n b w = (Inr k, w')"
  from assms have "list_all (\<lambda>oc. oc = Success) (tl (tl (outcomes w)))"
    by (simp add: noFaults_def noFaults_tl)
  with addImage_success(5)[OF add] have "noFaults w'"
    by (simp add: noFaults_def)
  from getImagesByGroup_noFaults[OF this, of G] addImage_success(2)[OF add]
  show "fst (getImagesByGroup G w') =
              Inr (filter (\<lambda>i. i_groupId i = G) (images w) @
                   (if G' = G
                    then [\<lparr>i_id = k, i_groupId = G', i_name = n, i_blob = b,
                            i_createdAt = clock w (clockReads w)\<rparr>]
                    else []))"
    by simp
qed

theorem getImagesByGroup_index_witness:
  "noFaults (tripWorld [])
   \<and> map i_name (projr (fst (getImagesByGroup 1 (tripWorld [])))) = [''a.jpg'', ''b.jpg'']
   \<and> fst (getImagesByGroup 5 (tripWorld [])) = Inr []
   \<and> addImage 1 ''d.jpg'' (Blob [71, 73] ''image/gif'') (tripWorld [])
       = (Inr 4, snd (addImage 1 ''d.jpg'' (Blob [71, 73] ''image/gif'') (tripWorld [])))
   \<and> map i_name (projr (fst (getImagesByGroup 1
         (snd (addImage 1 ''d.jpg'' (Blob [71, 73] ''image/gif'') (tripWorld []))))))
       = [''a.jpg'', ''b.jpg'', ''d.jpg'']"
proof -
  let ?w = "tripWorld []"
  let ?b = "Blob [71, 73] ''image/gif''"
  have nf: "noFaults ?w"
    by (simp add: noFaults_def tripWorld_def)
  have imgs: "map i_name (filter (\<lambda>i. i_groupId i = 1) (images ?w)) = [''a.jpg'', ''b.jpg'']"
    "filter (\<lambda>i. i_groupId i = 5) (images ?w) = []"
    by (simp_all add: tripWorld_def)
  have "fst (addImage 1 ''d.jpg'' ?b ?w) = Inr 4"
    by code_simp
  then have add: "addImage 1 ''d.jpg'' ?b ?w = (Inr 4, snd (addImage 1 ''d.jpg'' ?b ?w))"
    by (simp add: prod_eq_iff)
  from getImagesByGroup_index[OF nf, of 1 1 "''d.jpg''" ?b] add
  have "fst (getImagesByGroup 1 ?w) = Inr (filter (\<lambda>i. i_groupId i = 1) (images ?w))"
    "fst (getImagesByGroup 1 (snd (addImage 1 ''d.jpg'' ?b ?w))) =
       Inr (filter (\<lambda>i. i_groupId i = 1) (images ?w) @
         [\<lparr>i_id = 4, i_groupId = 1, i_name = ''d.jpg'', i_blob = ?b,
           i_createdAt = clock ?w (clockReads ?w)\<rparr>])"
    by auto
  moreover from getImagesByGroup_index[OF nf, of 5 1 "''d.jpg''" ?b]
  have "fst (getImagesByGroup 5 ?w) = Inr (filter (\<lambda>i. i_groupId i = 5) (images ?w))"
    by auto
  ultimately show ?thesis using nf add imgs by simp
qed

section \<open>Creating a group\<close>

lemma createGroup_success:
  assumes "createGroup n w = (Inr k, w')"
  shows "k = groupsKeyGen w"
    "groups w' = groups w @ [\<lparr>g_id = k, g_name = n, g_createdAt = clock w (clockReads w),
                               g_updatedAt = clock w (Suc (clockReads w))\<rparr>]"
    "groupsKeyGen w' = k + 1" "images w' = images w" "imagesKeyGen w' = imagesKeyGen w"
  using assms
  by (auto simp: createGroup_def openDB_eq nextOutcome_eq beginTransaction_def now_def Let_def
      split: outcome.splits)

lemma createGroup_noFaults:
  assumes "noFaults w"
  shows "createGroup n w = (Inr (groupsKeyGen w), snd (createGroup n w))"
    "noFaults (snd (createGroup n w))"
  using noFaults_three[OF assms] assms
  by (simp_all add: createGroup_def openDB_eq nextOutcome_eq beginTransaction_def now_def Let_def
      noFaults_def noFaults_tl)

lemma createGroup_inserts_one:
  assumes "wf_world w" and "createGroup n w = (Inr k, w')"
  shows "store_get g_id k (groups w) = None"
    and "\<exists>g. groups w' = groups w @ [g] \<and> g_id g = k \<and> g_name g = n
           \<and> g_createdAt g = clock w (clockReads w)
           \<and> g_updatedAt g = clock w (Suc (clockReads w))"
    and "wf_world w'"
proof -
  note s = createGroup_success[OF assms(2)]
  from assms(1) have below: "\<forall>r\<in>set (groups w). g_id r < groupsKeyGen w"
    and sorted: "sorted_wrt (<) (map g_id (groups w))"
    by (simp_all add: wf_world_def wf_store_def list_all_iff)
  from below s(1) show "store_get g_id k (groups w) = None"
    by (auto simp: store_get_def find_None_iff)
  from s show "\<exists>g. groups w' = groups w @ [g] \<and> g_id g = k \<and> g_name g = n
           \<and> g_createdAt g = clock w (clockReads w)
           \<and> g_updatedAt g = clock w (Suc (clockReads w))"
    by simp
  from below sorted s assms(1) show "wf_world w'"
    by (auto simp: wf_world_def wf_store_def list_all_iff sorted_wrt_append)
qed

text \<open>
  C8 says that a created group has equal \<^verbatim>\<open>createdAt\<close> and \<^verbatim>\<open>updatedAt\<close>. \<^verbatim>\<open>createGroup\<close>
  evaluates \<^verbatim>\<open>new Date().toISOString()\<close> once for each field. On the empty database, with
  a clock that advances by a millisecond between the two evaluations, \<^verbatim>\<open>createGroup("Trip")\<close>
  returns the id 1 and stores one group whose two timestamps differ.
\<close>

theorem createGroup_timestamps_differ:
  "fst (createGroup ''Trip'' (emptyWorld [])) = Inr 1
   \<and> groups (snd (createGroup ''Trip'' (emptyWorld []))) =
       [\<lparr>g_id = 1, g_name = ''Trip'', g_createdAt = ''2024-01-01T00:00:00.000Z'',
         g_updatedAt = ''2024-01-01T00:00:00.001Z''\<rparr>]
   \<and> g_createdAt (hd (groups (snd (createGroup ''Trip'' (emptyWorld [])))))
       \<noteq> g_updatedAt (hd (groups (snd (createGroup ''Trip'' (emptyWorld [])))))"
  by code_simp

section \<open>Connections\<close>

text \<open>
  C9 says that the connection is opened on first use and reused afterwards. Each
  operation calls \<^verbatim>\<open>openDB\<close>, and \<^verbatim>\<open>openDB\<close> calls \<^verbatim>\<open>indexedDB.open\<close> every time: on the empty
  database, \<^verbatim>\<open>createGroup\<close> followed by \<^verbatim>\<open>getGroup\<close> opens two connections, and the second
  transaction runs on the second handle.
\<close>

theorem connection_reuse_counterexample:
  "transactions (snd (getGroup 1 (snd (createGroup ''Trip'' (emptyWorld []))))) =
     [\<lparr>tx_connection = 0, tx_stores = [''groups''], tx_mode = ReadWrite\<rparr>,
      \<lparr>tx_connection = 1, tx_stores = [''groups''], tx_mode = ReadOnly\<rparr>]
   \<and> connections (emptyWorld []) = 0
   \<and> connections (snd (createGroup ''Trip'' (emptyWorld []))) = 1
   \<and> connections (snd (getGroup 1 (snd (createGroup ''Trip'' (emptyWorld []))))) = 2"
  by code_simp

lemma deleteImagesByGroup_connections:
  assumes "deleteImagesByGroup G w = (r, w')"
  shows "connections w' =
           (if headOutcome (outcomes w) = Success then Suc (connections w) else connections w)"
  using assms
  by (auto simp: deleteImagesByGroup_def openDB_eq nextOutcome_eq beginTransaction_def Let_def
      split: outcome.splits prod.splits sum.splits dest: cursorLoop_fields)

lemma deleteImagesByGroup_opensFresh:
  assumes "headOutcome (outcomes w) = Success"
  shows "opensFresh w (snd (deleteImagesByGroup G w)) ''images'' ReadWrite"
proof (cases "deleteImagesByGroup G w")
  case (Pair r w')
  with assms show ?thesis
    by (auto simp: opensFresh_def deleteImagesByGroup_def openDB_eq nextOutcome_eq
        beginTransaction_def Let_def
        split: outcome.splits prod.splits sum.splits dest: cursorLoop_fields)
qed

lemma deleteGroup_connections:
  assumes "headOutcome (outcomes w) = Success"
  shows "connections (snd (deleteGroup G w)) =
           (if headOutcome (tl (outcomes w)) = Success then Suc (Suc (connections w))
            else Suc (connections w))"
proof -
  let ?w1 = "w\<lparr>outcomes := tl (outcomes w), connections := Suc (connections w)\<rparr>"
  obtain r w2 where w2: "deleteImagesByGroup G ?w1 = (r, w2)"
    by (cases "deleteImagesByGroup G ?w1")
  from deleteImagesByGroup_connections[OF w2]
  have c2: "connections w2 =
      (if headOutcome (tl (outcomes w)) = Success then Suc (Suc (connections w))
       else Suc (connections w))"
    by simp
  have "connections (snd (deleteGroup G w)) = connections w2"
    using assms w2
    by (cases r)
      (simp_all add: deleteGroup_def openDB_eq nextOutcome_eq beginTransaction_def Let_def
        split: outcome.splits)
  with c2 show ?thesis by simp
qed

text \<open>
  C9, as the service behaves: every operation whose call of \<^verbatim>\<open>indexedDB.open\<close> succeeds
  opens one new connection and begins its transaction on the handle of that connection;
  \<^verbatim>\<open>deleteGroup\<close> opens a second one through \<^verbatim>\<open>deleteImagesByGroup\<close>. No handle is kept from
  one operation to the next.
\<close>

theorem every_operation_opens_a_connection:
  assumes "headOutcome (outcomes w) = Success"
  shows "opensFresh w (snd (createGroup n w)) ''groups'' ReadWrite
       \<and> opensFresh w (snd (getAllGroups w)) ''groups'' ReadOnly
       \<and> opensFresh w (snd (getGroup k w)) ''groups'' ReadOnly
       \<and> opensFresh w (snd (renameGroup k n w)) ''groups'' ReadWrite
       \<and> opensFresh w (snd (addImage G n b w)) ''images'' ReadWrite
       \<and> opensFresh w (snd (getImagesByGroup G w)) ''images'' ReadOnly
       \<and> opensFresh w (snd (renameImage k n w)) ''images'' ReadWrite
       \<and> opensFresh w (snd (deleteImage k w)) ''images'' ReadWrite
       \<and> opensFresh w (snd (deleteImagesByGroup G w)) ''images'' ReadWrite
       \<and> connections (snd (deleteGroup G w)) =
           (if headOutcome (tl (outcomes w)) = Success then Suc (Suc (connections w))
            else Suc (connections w))"
proof (intro conjI)
  show "opensFresh w (snd (createGroup n w)) ''groups'' ReadWrite"
    using assms
    by (simp add: opensFresh_def createGroup_def openDB_eq nextOutcome_eq beginTransaction_def
        now_def Let_def split: outcome.splits)
  show "opensFresh w (snd (getAllGroups w)) ''groups'' ReadOnly"
    using assms
    by (simp add: opensFresh_def getAllGroups_def openDB_eq nextOutcome_eq beginTransaction_def
        Let_def split: outcome.splits)
  show "opensFresh w (snd (getGroup k w)) ''groups'' ReadOnly"
    using assms
    by (simp add: opensFresh_def getGroup_def openDB_eq nextOutcome_eq beginTransaction_def
        Let_def split: outcome.splits)
  show "opensFresh w (snd (renameGroup k n w)) ''groups'' ReadWrite"
    using assms
    by (simp add: opensFresh_def renameGroup_def openDB_eq nextOutcome_eq beginTransaction_def
        now_def Let_def split: outcome.splits option.splits)
  show "opensFresh w (snd (addImage G n b w)) ''images'' ReadWrite"
    using assms
    by (simp add: opensFresh_def addImage_def openDB_eq nextOutcome_eq beginTransaction_def
        now_def Let_def split: outcome.splits)
  show "opensFresh w (snd (getImagesByGroup G w)) ''images'' ReadOnly"
    using assms
    by (simp add: opensFresh_def getImagesByGroup_def openDB_eq nextOutcome_eq
        beginTransaction_def Let_def split: outcome.splits)
  show "opensFresh w (snd (renameImage k n w)) ''images'' ReadWrite"
    using assms
    by (simp add: opensFresh_def renameImage_def openDB_eq nextOutcome_eq beginTransaction_def
        Let_def split: outcome.splits option.splits)
  show "opensFresh w (snd (deleteImage k w)) ''images'' ReadWrite"
    using assms
    by (simp add: opensFresh_def deleteImage_eq split: outcome.splits)
  show "opensFresh w (snd (deleteImagesByGroup G w)) ''images'' ReadWrite"
    using assms by (rule deleteImagesByGroup_opensFresh)
  show "connections (snd (deleteGroup G w)) =
           (if headOutcome (tl (outcomes w)) = Success then Suc (Suc (connections w))
            else Suc (connections w))"
    using assms by (rule deleteGroup_connections)
qed

theorem every_operation_opens_a_connection_witness:
  "headOutcome (outcomes (tripWorld [])) = Success
   \<and> connections (tripWorld []) = 0
   \<and> connections (snd (getAllGroups (tripWorld []))) = 1
   \<and> transactions (snd (getAllGroups (tripWorld []))) =
       [\<lparr>tx_connection = 0, tx_stores = [''groups''], tx_mode = ReadOnly\<rparr>]
   \<and> connections (snd (deleteGroup 1 (tripWorld []))) = 2"
proof -
  have h: "headOutcome (outcomes (tripWorld [])) = Success"
    "headOutcome (tl (outcomes (tripWorld []))) = Success"
    by (simp_all add: headOutcome_def tripWorld_def)
  have c: "connections (tripWorld []) = 0" "transactions (tripWorld []) = []"
    by (simp_all add: tripWorld_def)
  from every_operation_opens_a_connection[OF h(1)]
  have "opensFresh (tripWorld []) (snd (getAllGroups (tripWorld []))) ''groups'' ReadOnly"
    "connections (snd (deleteGroup 1 (tripWorld []))) =
       (if headOutcome (tl (outcomes (tripWorld []))) = Success
        then Suc (Suc (connections (tripWorld []))) else Suc (connections (tripWorld [])))"
    by blast+
  with h c show ?thesis by (simp add: opensFresh_def)
qed

section \<open>Well-formed databases\<close>

text \<open>
  The database the first open creates is well-formed, and every operation of the service
  leaves a well-formed database well-formed, whatever the engine answers.
\<close>

lemma wf_store_filter: "wf_store key rs gen \<Longrightarrow> wf_store key (filter P rs) gen"
  by (auto simp: wf_store_def sorted_wrt_map list_all_iff intro: sorted_wrt_filter)

lemma wf_store_append:
  "wf_store key rs gen \<Longrightarrow> key v = gen \<Longrightarrow> wf_store key (rs @ [v]) (gen + 1)"
  by (auto simp: wf_store_def list_all_iff sorted_wrt_append)

lemma wf_store_replace:
  assumes "wf_store key rs gen" and "key v = k"
  shows "wf_store key (map (\<lambda>r. if key r = k then v else r) rs) (max gen (k + 1))"
proof -
  have keys: "map key (map (\<lambda>r. if key r = k then v else r) rs) = map key rs"
    using assms(2) by (rule keys_replace)
  have "\<forall>r\<in>set (map (\<lambda>r. if key r = k then v else r) rs). key r < max gen (k + 1)"
    using assms by (auto simp: wf_store_def list_all_iff)
  with assms(1) show ?thesis
    unfolding wf_store_def list_all_iff by (simp only: keys)
qed

lemma wf_world_emptyWorld: "wf_world (emptyWorld ocs)"
  by (simp add: wf_world_def wf_store_def emptyWorld_def)

lemma wf_world_reads:
  "wf_world w \<Longrightarrow> wf_world (snd (getAllGroups w))"
  "wf_world w \<Longrightarrow> wf_world (snd (getGroup k w))"
  "wf_world w \<Longrightarrow> wf_world (snd (getImagesByGroup G w))"
  by (simp_all add: wf_world_def getAllGroups_def getGroup_def getImagesByGroup_def openDB_eq
      nextOutcome_eq beginTransaction_def Let_def split: outcome.splits)

lemma wf_world_adds:
  "wf_world w \<Longrightarrow> wf_world (snd (createGroup n w))"
  "wf_world w \<Longrightarrow> wf_world (snd (addImage G n b w))"
  by (simp_all add: wf_world_def createGroup_def addImage_def openDB_eq nextOutcome_eq
      beginTransaction_def now_def Let_def wf_store_append split: outcome.splits)

lemma wf_world_renameGroup:
  assumes "wf_world w"
  shows "wf_world (snd (renameGroup k n w))"
proof (cases "renameGroup k n w")
  case (Pair r w')
  show ?thesis
  proof (cases r)
    case (Inl e)
    with Pair assms show ?thesis
      by (auto simp: wf_world_def renameGroup_def openDB_eq nextOutcome_eq beginTransaction_def
          now_def Let_def split: outcome.splits option.splits)
  next
    case (Inr u)
    with Pair obtain g where g: "store_get g_id k (groups w) = Some g"
      and w': "groups w' = store_put g_id (g\<lparr>g_name := n, g_updatedAt := clock w (clockReads w)\<rparr>) (groups w)"
      and im: "images w' = images w"
      by (auto elim: renameGroup_success)
    let ?g' = "g\<lparr>g_name := n, g_updatedAt := clock w (clockReads w)\<rparr>"
    from g have key: "g_id ?g' = k" by (auto dest: store_get_Some)
    with g w' have eq: "groups w' = map (\<lambda>r. if g_id r = k then ?g' else r) (groups w)"
      using store_put_present[of g_id ?g' "groups w" g] by simp
    from Pair Inr g have gens: "groupsKeyGen w' = max (groupsKeyGen w) (k + 1)"
      "imagesKeyGen w' = imagesKeyGen w"
      using key
      by (auto simp: renameGroup_def openDB_eq nextOutcome_eq beginTransaction_def
          now_def Let_def split: outcome.splits option.splits)
    from assms have "wf_store g_id (groups w') (groupsKeyGen w')"
      unfolding eq gens wf_world_def using key by (intro wf_store_replace) simp_all
    with assms im gens Pair show ?thesis by (simp add: wf_world_def)
  qed
qed

lemma wf_world_renameImage:
  assumes "wf_world w"
  shows "wf_world (snd (renameImage k n w))"
proof (cases "renameImage k n w")
  case (Pair r w')
  show ?thesis
  proof (cases r)
    case (Inl e)
    with Pair assms show ?thesis
      by (auto simp: wf_world_def renameImage_def openDB_eq nextOutcome_eq beginTransaction_def
          Let_def split: outcome.splits option.splits)
  next
    case (Inr u)
    with Pair obtain i where i: "store_get i_id k (images w) = Some i"
      and w': "images w' = store_put i_id (i\<lparr>i_name := n\<rparr>) (images w)"
      and gr: "groups w' = groups w"
      by (auto elim: renameImage_success)
    let ?i' = "i\<lparr>i_name := n\<rparr>"
    from i have key: "i_id ?i' = k" by (auto dest: store_get_Some)
    with i w' have eq: "images w' = map (\<lambda>r. if i_id r = k then ?i' else r) (images w)"
      using store_put_present[of i_id ?i' "images w" i] by simp
    from Pair Inr i have gens: "imagesKeyGen w' = max (imagesKeyGen w) (k + 1)"
      "groupsKeyGen w' = groupsKeyGen w"
      using key
      by (auto simp: renameImage_def openDB_eq nextOutcome_eq beginTransaction_def
          Let_def split: outcome.splits option.splits)
    from assms have "wf_store i_id (images w') (imagesKeyGen w')"
      unfolding eq gens wf_world_def using key by (intro wf_store_replace) simp_all
    with assms gr gens Pair show ?thesis by (simp add: wf_world_def)
  qed
qed

lemma wf_world_deleteImage: "wf_world w \<Longrightarrow> wf_world (snd (deleteImage k w))"
  by (simp add: wf_world_def deleteImage_eq store_delete_def wf_store_filter
      split: outcome.splits)

lemma wf_world_deleteImagesByGroup:
  assumes "wf_world w"
  shows "wf_world (snd (deleteImagesByGroup G w))"
proof (cases "deleteImagesByGroup G w")
  case (Pair r w')
  from assms have "sorted_wrt (<) (map i_id (images w))"
    by (simp add: wf_world_def wf_store_def)
  from deleteImagesByGroup_images[OF this Pair]
  have "images w' = images w \<or> images w' = filter (\<lambda>i. i_groupId i \<noteq> G) (images w)"
    by (cases r) simp_all
  with assms deleteImagesByGroup_fields(1,2,3)[OF Pair] Pair show ?thesis
    by (auto simp: wf_world_def wf_store_filter)
qed

lemma wf_world_deleteGroup:
  assumes "wf_world w"
  shows "wf_world (snd (deleteGroup G w))"
proof -
  let ?w1 = "w\<lparr>outcomes := tl (outcomes w), connections := Suc (connections w)\<rparr>"
  from assms have "wf_world ?w1" by (simp add: wf_world_def)
  then have wf2: "wf_world (snd (deleteImagesByGroup G ?w1))"
    by (rule wf_world_deleteImagesByGroup)
  show ?thesis
  proof (cases "deleteImagesByGroup G ?w1")
    case (Pair r w2)
    with wf2 have "wf_world w2" by simp
    with Pair assms show ?thesis
      by (cases r)
        (auto simp: wf_world_def deleteGroup_def openDB_eq nextOutcome_eq beginTransaction_def
          Let_def store_delete_def wf_store_filter split: outcome.splits)
  qed
qed

end
